theory Spec2Isabelle
  imports Complex_Main "HOL-Library.Multiset"
begin

section \<open>The 2048 board engine of src/App.tsx\<close>

text \<open>
  The component keeps a board (\<^verbatim>\<open>number[][]\<close>), a score and a game-over flag, and
  changes them in \<^verbatim>\<open>move\<close>. Tile values are small integers (0, 2, 4, ...; sixteen cells
  cannot build a tile above 131072), far below the range where a JavaScript number
  stops being an exact integer, so a cell is an \<open>int\<close>. A read that JavaScript
  answers with \<^verbatim>\<open>undefined\<close> is written out: a missing row makes the following
  property access throw a TypeError, a missing cell compares unequal to every number.
\<close>

subsection \<open>Data\<close>

type_synonym board = "int list list"

abbreviation GRID_SIZE :: nat where
  "GRID_SIZE \<equiv> 4"

datatype error =
    TypeError       \<comment> \<open>thrown: a property of \<^verbatim>\<open>undefined\<close> is read or destructured\<close>
  | UndefinedCell   \<comment> \<open>not thrown: the result would hold \<^verbatim>\<open>undefined\<close>, which is no \<^verbatim>\<open>number\<close>\<close>

datatype direction = Up | Down | Left | Right

text \<open>\<^verbatim>\<open>row[j]\<close>: \<open>None\<close> stands for \<^verbatim>\<open>undefined\<close>.\<close>

definition cellAt :: "int list \<Rightarrow> nat \<Rightarrow> int option" where
  "cellAt row j = (if j < length row then Some (row ! j) else None)"

text \<open>\<^verbatim>\<open>createEmptyBoard\<close> (lines 117-119).\<close>

definition createEmptyBoard :: board where
  "createEmptyBoard = replicate GRID_SIZE (replicate GRID_SIZE 0)"

subsection \<open>Sliding one row to the left\<close>

text \<open>
  The \<^verbatim>\<open>for\<close> loop of \<^verbatim>\<open>slideRowLeft\<close> (lines 157-166), with its index \<open>i\<close> and the two
  variables it updates. The merging branch increments \<open>i\<close> a second time.
\<close>

function mergeLoop :: "int list \<Rightarrow> nat \<Rightarrow> int list \<Rightarrow> int \<Rightarrow> int list \<times> int" where
  "mergeLoop filteredRow i newRow mergedScore =
     (if i < length filteredRow then
        (if i + 1 < length filteredRow \<and> filteredRow ! i = filteredRow ! (i + 1)
         then mergeLoop filteredRow (i + 1 + 1) (newRow @ [filteredRow ! i * 2])
                (mergedScore + filteredRow ! i * 2)
         else mergeLoop filteredRow (i + 1) (newRow @ [filteredRow ! i]) mergedScore)
      else (newRow, mergedScore))"
  by pat_completeness auto
termination
  by (relation "measure (\<lambda>(filteredRow, i, newRow, mergedScore). length filteredRow - i)") auto

declare mergeLoop.simps [simp del]

text \<open>The \<^verbatim>\<open>while\<close> loop of lines 168-170.\<close>

function padLoop :: "int list \<Rightarrow> int list" where
  "padLoop newRow = (if length newRow < GRID_SIZE then padLoop (newRow @ [0]) else newRow)"
  by pat_completeness auto
termination
  by (relation "measure (\<lambda>newRow. GRID_SIZE - length newRow)") auto

declare padLoop.simps [simp del]

text \<open>\<^verbatim>\<open>slideRowLeft\<close> (lines 152-172); the result is the pair (newRow, mergedScore).\<close>

definition slideRowLeft :: "int list \<Rightarrow> int list \<times> int" where
  "slideRowLeft row =
     (let filteredRow = filter (\<lambda>val. val \<noteq> 0) row;
          (newRow, mergedScore) = mergeLoop filteredRow 0 [] 0
      in (padLoop newRow, mergedScore))"

text \<open>
  The specification's wording of the same operation, for comparison with the code:
  remove the zeros, scan left to right merging two consecutive equal values into one
  tile of double value that is added to the score delta, continue behind the pair, and
  pad on the right with zeros to length N.
\<close>

fun mergePairs :: "int list \<Rightarrow> int list \<times> int" where
  "mergePairs (x # y # xs) =
     (if x = y then (2 * x # fst (mergePairs xs), 2 * x + snd (mergePairs xs))
      else (x # fst (mergePairs (y # xs)), snd (mergePairs (y # xs))))"
| "mergePairs xs = (xs, 0)"

definition slideAndMergeLine :: "int list \<Rightarrow> int list \<times> int" where
  "slideAndMergeLine line =
     (let compacted = filter (\<lambda>v. v \<noteq> 0) line;
          merged = fst (mergePairs compacted)
      in (merged @ replicate (GRID_SIZE - length merged) 0, snd (mergePairs compacted)))"

text \<open>
  How often the loop of lines 157-166 takes its merging branch on a compacted row: the
  number of merged pairs. The code does not compute it; the specification counts with it.
\<close>

function mergeCount :: "int list \<Rightarrow> nat \<Rightarrow> nat" where
  "mergeCount filteredRow i =
     (if i < length filteredRow then
        (if i + 1 < length filteredRow \<and> filteredRow ! i = filteredRow ! (i + 1)
         then Suc (mergeCount filteredRow (i + 1 + 1))
         else mergeCount filteredRow (i + 1))
      else 0)"
  by pat_completeness auto
termination
  by (relation "measure (\<lambda>(filteredRow, i). length filteredRow - i)") auto

declare mergeCount.simps [simp del]

subsection \<open>Spawning a tile\<close>

text \<open>
  The cells that the loops of lines 124-130 push, in the order they push them.
  \<^verbatim>\<open>undefined === 0\<close> is false, so a missing cell is not empty.
\<close>

definition emptyCells :: "board \<Rightarrow> (nat \<times> nat) list" where
  "emptyCells newBoard =
     [(i, j). i \<leftarrow> [0..<GRID_SIZE], j \<leftarrow> [0..<GRID_SIZE], cellAt (newBoard ! i) j = Some 0]"

text \<open>
  \<^verbatim>\<open>addRandomTile\<close> (lines 121-137). The two random draws are arguments: \<open>pick n\<close> is
  the value of \<^verbatim>\<open>Math.floor(Math.random() * n)\<close> and \<open>small\<close> the value of
  \<^verbatim>\<open>Math.random() < 0.9\<close>. A board with fewer than four rows makes \<^verbatim>\<open>newBoard[i][j]\<close>
  throw; destructuring \<^verbatim>\<open>emptyCells[k]\<close> for an index \<open>k\<close> outside the array throws too.
\<close>

definition addRandomTile :: "board \<Rightarrow> (nat \<Rightarrow> nat) \<Rightarrow> bool \<Rightarrow> error + board" where
  "addRandomTile currentBoard pick small =
     (if length currentBoard < GRID_SIZE then Inl TypeError
      else
        let cells = emptyCells currentBoard in
        if length cells > 0 then
          (if pick (length cells) < length cells then
             (case cells ! pick (length cells) of
                (x, y) \<Rightarrow>
                  Inr (currentBoard[x := (currentBoard ! x)[y := (if small then 2 else 4)]]))
           else Inl TypeError)
        else Inr currentBoard)"

text \<open>
  \<^verbatim>\<open>Math.random()\<close> lies in [0, 1), so the index drawn for an array of \<open>n > 0\<close> cells
  lies below \<open>n\<close>; a board has at most 16 empty cells.
\<close>

definition validPick :: "(nat \<Rightarrow> nat) \<Rightarrow> bool" where
  "validPick pick \<longleftrightarrow> (\<forall>n \<in> {1..GRID_SIZE * GRID_SIZE}. pick n < n)"

subsection \<open>Rotating the board\<close>

text \<open>
  \<^verbatim>\<open>rotateBoard\<close> (lines 174-182) reads \<^verbatim>\<open>currentBoard[GRID_SIZE - 1 - j][i]\<close> for all
  \<open>i, j < 4\<close>: with fewer than four rows the read throws, and a row shorter than four
  cells puts \<^verbatim>\<open>undefined\<close> into the result.
\<close>

definition rotateBoard :: "board \<Rightarrow> error + board" where
  "rotateBoard currentBoard =
     (if length currentBoard < GRID_SIZE then Inl TypeError
      else if \<exists>row \<in> set (take GRID_SIZE currentBoard). length row < GRID_SIZE
        then Inl UndefinedCell
      else Inr (map (\<lambda>i. map (\<lambda>j. currentBoard ! (GRID_SIZE - 1 - j) ! i) [0..<GRID_SIZE])
                  [0..<GRID_SIZE]))"

subsection \<open>The game state and a move\<close>

text \<open>
  The state that \<^verbatim>\<open>move\<close> reads and writes. The best score and the touch start point
  are kept beside it and no operation below reads them.
\<close>

record game =
  board :: board
  score :: int
  gameOver :: bool

fun rotations :: "direction \<Rightarrow> nat" where
  "rotations Left = 0"
| "rotations Up = 1"
| "rotations Right = 2"
| "rotations Down = 3"

text \<open>The loop of lines 195-197: \<open>n\<close> quarter turns.\<close>

fun rotateTimes :: "nat \<Rightarrow> board \<Rightarrow> error + board" where
  "rotateTimes 0 tempBoard = Inr tempBoard"
| "rotateTimes (Suc n) tempBoard =
     (case rotateBoard tempBoard of
        Inl e \<Rightarrow> Inl e
      | Inr rotated \<Rightarrow> rotateTimes n rotated)"

text \<open>
  The loop of lines 199-203 over the row indices: \<^verbatim>\<open>slideRowLeft(undefined)\<close> throws
  when the row is missing.
\<close>

fun slideRows :: "nat list \<Rightarrow> board \<Rightarrow> int \<Rightarrow> error + (board \<times> int)" where
  "slideRows [] tempBoard totalMergedScore = Inr (tempBoard, totalMergedScore)"
| "slideRows (i # rest) tempBoard totalMergedScore =
     (if i < length tempBoard then
        (case slideRowLeft (tempBoard ! i) of
           (newRow, mergedScore) \<Rightarrow>
             slideRows rest (tempBoard[i := newRow]) (totalMergedScore + mergedScore))
      else Inl TypeError)"

text \<open>The loop of lines 205-207: three quarter turns for each rotation made before.\<close>

fun rotateBack :: "nat \<Rightarrow> board \<Rightarrow> error + board" where
  "rotateBack 0 tempBoard = Inr tempBoard"
| "rotateBack (Suc n) tempBoard =
     (case rotateTimes 3 tempBoard of
        Inl e \<Rightarrow> Inl e
      | Inr rotated \<Rightarrow> rotateBack n rotated)"

text \<open>
  Lines 187-207 of \<^verbatim>\<open>move\<close>: the board before the spawn and the score of the merges.
\<close>

definition moveBoard :: "board \<Rightarrow> direction \<Rightarrow> error + (board \<times> int)" where
  "moveBoard b direction =
     (case rotateTimes (rotations direction) b of
        Inl e \<Rightarrow> Inl e
      | Inr turned \<Rightarrow>
          (case slideRows [0..<GRID_SIZE] turned 0 of
             Inl e \<Rightarrow> Inl e
           | Inr (slid, totalMergedScore) \<Rightarrow>
               (case rotateBack (rotations direction) slid of
                  Inl e \<Rightarrow> Inl e
                | Inr tempBoard \<Rightarrow> Inr (tempBoard, totalMergedScore))))"

text \<open>
  \<^verbatim>\<open>isGameOver\<close> (lines 221-230): the two loops visit the cells in row-major order and
  return at the first cell that is empty or equals its lower or right neighbour.
  \<^verbatim>\<open>===\<close> on two cells is equality of \<open>int option\<close>: two missing cells are equal.
\<close>

fun isGameOverScan :: "board \<Rightarrow> (nat \<times> nat) list \<Rightarrow> error + bool" where
  "isGameOverScan currentBoard [] = Inr True"
| "isGameOverScan currentBoard ((i, j) # rest) =
     (if length currentBoard \<le> i then Inl TypeError
      else if cellAt (currentBoard ! i) j = Some 0 then Inr False
      else if i < GRID_SIZE - 1 \<and> length currentBoard \<le> i + 1 then Inl TypeError
      else if i < GRID_SIZE - 1 \<and>
              cellAt (currentBoard ! i) j = cellAt (currentBoard ! (i + 1)) j then Inr False
      else if j < GRID_SIZE - 1 \<and>
              cellAt (currentBoard ! i) j = cellAt (currentBoard ! i) (j + 1) then Inr False
      else isGameOverScan currentBoard rest)"

definition isGameOver :: "board \<Rightarrow> error + bool" where
  "isGameOver currentBoard =
     isGameOverScan currentBoard [(i, j). i \<leftarrow> [0..<GRID_SIZE], j \<leftarrow> [0..<GRID_SIZE]]"

text \<open>
  \<^verbatim>\<open>move\<close> (lines 184-219). \<^verbatim>\<open>JSON.stringify\<close> of two boards of integers gives equal
  strings exactly when the boards are equal.
\<close>

definition move :: "game \<Rightarrow> direction \<Rightarrow> (nat \<Rightarrow> nat) \<Rightarrow> bool \<Rightarrow> error + game" where
  "move g direction pick small =
     (if gameOver g then Inr g
      else
        (case moveBoard (board g) direction of
           Inl e \<Rightarrow> Inl e
         | Inr (tempBoard, totalMergedScore) \<Rightarrow>
             (if board g \<noteq> tempBoard then
                (case addRandomTile tempBoard pick small of
                   Inl e \<Rightarrow> Inl e
                 | Inr newBoardWithTile \<Rightarrow>
                     (case isGameOver newBoardWithTile of
                        Inl e \<Rightarrow> Inl e
                      | Inr over \<Rightarrow>
                          Inr (g\<lparr>board := newBoardWithTile,
                                 score := score g + totalMergedScore,
                                 gameOver := (if over then True else gameOver g)\<rparr>)))
              else Inr g)))"

text \<open>\<^verbatim>\<open>initGame\<close> (lines 139-146), with the draws of its two spawns.\<close>

definition initGame ::
  "game \<Rightarrow> (nat \<Rightarrow> nat) \<Rightarrow> bool \<Rightarrow> (nat \<Rightarrow> nat) \<Rightarrow> bool \<Rightarrow> error + game" where
  "initGame g pick1 small1 pick2 small2 =
     (case addRandomTile createEmptyBoard pick1 small1 of
        Inl e \<Rightarrow> Inl e
      | Inr first \<Rightarrow>
          (case addRandomTile first pick2 small2 of
             Inl e \<Rightarrow> Inl e
           | Inr newBoard \<Rightarrow> Inr (g\<lparr>board := newBoard, score := 0, gameOver := False\<rparr>)))"

subsection \<open>Input handlers\<close>

text \<open>
  \<^verbatim>\<open>handleKeyDown\<close> (lines 232-247): the direction it passes to \<^verbatim>\<open>move\<close>, or \<open>None\<close>
  when the \<^verbatim>\<open>switch\<close> has no case for the key.
\<close>

definition handleKeyDown :: "string \<Rightarrow> direction option" where
  "handleKeyDown key =
     (if key = ''ArrowUp'' then Some Down
      else if key = ''ArrowDown'' then Some Up
      else if key = ''ArrowLeft'' then Some Left
      else if key = ''ArrowRight'' then Some Right
      else None)"

text \<open>
  Lines 267-277 of \<^verbatim>\<open>handleTouchEnd\<close>, on the displacement \<open>(dx, dy)\<close> it has computed.
  Screen coordinates grow to the right and downwards.
\<close>

definition swipe :: "real \<Rightarrow> real \<Rightarrow> direction option" where
  "swipe dx dy =
     (let absDx = \<bar>dx\<bar>; absDy = \<bar>dy\<bar> in
      if max absDx absDy > 30 then
        (if absDx > absDy then Some (if dx > 0 then Right else Left)
         else Some (if dy > 0 then Down else Up))
      else None)"

text \<open>
  \<^verbatim>\<open>handleTouchEnd\<close> (lines 262-280): the direction it passes to \<^verbatim>\<open>move\<close>, if any.
  A point is its \<^verbatim>\<open>(clientX, clientY)\<close>.
\<close>

definition handleTouchEnd :: "(real \<times> real) option \<Rightarrow> (real \<times> real) list \<Rightarrow> direction option" where
  "handleTouchEnd touchStart changedTouches =
     (case touchStart of
        None \<Rightarrow> None
      | Some (startX, startY) \<Rightarrow>
          (case changedTouches of
             [(endX, endY)] \<Rightarrow> swipe (endX - startX) (endY - startY)
           | _ \<Rightarrow> None))"

subsection \<open>Well-formed grids and counts\<close>

definition is4x4 :: "board \<Rightarrow> bool" where
  "is4x4 b \<longleftrightarrow> length b = GRID_SIZE \<and> (\<forall>row \<in> set b. length row = GRID_SIZE)"

text \<open>A cell value: 0, or a power of two that is at least 2.\<close>

definition tileValue :: "int \<Rightarrow> bool" where
  "tileValue v \<longleftrightarrow> v = 0 \<or> (\<exists>n \<in> {1..nat v}. v = 2 ^ n)"

definition wellFormed :: "board \<Rightarrow> bool" where
  "wellFormed b \<longleftrightarrow> is4x4 b \<and> (\<forall>row \<in> set b. \<forall>v \<in> set row. tileValue v)"

definition nonZeroCount :: "board \<Rightarrow> nat" where
  "nonZeroCount b = length (filter (\<lambda>v. v \<noteq> 0) (concat b))"

subsection \<open>The specification's move\<close>

text \<open>
  The move as the specification words it, for comparison with \<open>moveBoard\<close>: \<open>k\<close>
  quarter turns (0 for left, 1 for up, 2 for right, 3 for down), the line slide on
  every row with the score deltas summed, then \<open>(4 - k) mod 4\<close> further quarter turns.
\<close>

definition normalizedMove :: "board \<Rightarrow> direction \<Rightarrow> error + (board \<times> int)" where
  "normalizedMove grid d =
     (let k = (case d of Left \<Rightarrow> 0 | Up \<Rightarrow> 1 | Right \<Rightarrow> 2 | Down \<Rightarrow> 3) in
      case rotateTimes k grid of
        Inl e \<Rightarrow> Inl e
      | Inr turned \<Rightarrow>
          (case rotateTimes ((4 - k) mod 4) (map (\<lambda>line. fst (slideAndMergeLine line)) turned) of
             Inl e \<Rightarrow> Inl e
           | Inr restored \<Rightarrow>
               Inr (restored, sum_list (map (\<lambda>line. snd (slideAndMergeLine line)) turned))))"

text \<open>
  The terminal test as the specification words it: every cell is non-zero and no two
  horizontally or vertically adjacent cells hold equal values.
\<close>

definition isTerminal :: "board \<Rightarrow> bool" where
  "isTerminal grid \<longleftrightarrow>
     (\<forall>i \<in> {0..<GRID_SIZE}. \<forall>j \<in> {0..<GRID_SIZE}. grid ! i ! j \<noteq> 0) \<and>
     (\<forall>i \<in> {0..<GRID_SIZE}. \<forall>j \<in> {0..<GRID_SIZE - 1}. grid ! i ! j \<noteq> grid ! i ! (j + 1)) \<and>
     (\<forall>i \<in> {0..<GRID_SIZE - 1}. \<forall>j \<in> {0..<GRID_SIZE}. grid ! i ! j \<noteq> grid ! (i + 1) ! j)"

subsection \<open>A session: a sequence of moves\<close>

text \<open>
  One input is the direction of a \<^verbatim>\<open>move\<close> call with the draws that its spawn makes.
  Every call sees the state that the call before it has left.
\<close>

type_synonym input = "direction \<times> (nat \<Rightarrow> nat) \<times> bool"

fun run :: "game \<Rightarrow> input list \<Rightarrow> error + game" where
  "run g [] = Inr g"
| "run g ((d, pick, small) # rest) =
     (case move g d pick small of
        Inl e \<Rightarrow> Inl e
      | Inr g' \<Rightarrow> run g' rest)"

text \<open>A move changes the state when the game is not over and the slid board differs.\<close>

definition stateChanging :: "game \<Rightarrow> direction \<Rightarrow> bool" where
  "stateChanging g d \<longleftrightarrow>
     \<not> gameOver g \<and>
     (case moveBoard (board g) d of
        Inl e \<Rightarrow> False
      | Inr (tempBoard, totalMergedScore) \<Rightarrow> board g \<noteq> tempBoard)"

text \<open>The score delta of a move: \<^verbatim>\<open>totalMergedScore\<close>.\<close>

definition scoreDelta :: "board \<Rightarrow> direction \<Rightarrow> int" where
  "scoreDelta b d =
     (case moveBoard b d of
        Inl e \<Rightarrow> 0
      | Inr (tempBoard, totalMergedScore) \<Rightarrow> totalMergedScore)"

text \<open>The sum of the score deltas of the state-changing moves of a sequence.\<close>

fun deltaSum :: "game \<Rightarrow> input list \<Rightarrow> int" where
  "deltaSum g [] = 0"
| "deltaSum g ((d, pick, small) # rest) =
     (if stateChanging g d then scoreDelta (board g) d else 0) +
     (case move g d pick small of
        Inl e \<Rightarrow> 0
      | Inr g' \<Rightarrow> deltaSum g' rest)"

text \<open>
  The number of merged pairs of a move: the merges of the row slides of lines 199-203,
  on the turned board.
\<close>

definition mergedPairs :: "board \<Rightarrow> direction \<Rightarrow> nat" where
  "mergedPairs b d =
     (case rotateTimes (rotations d) b of
        Inl e \<Rightarrow> 0
      | Inr turned \<Rightarrow>
          sum_list (map (\<lambda>row. mergeCount (filter (\<lambda>val. val \<noteq> 0) row) 0)
                      (take GRID_SIZE turned)))"

section \<open>Properties\<close>

subsection \<open>The row slide\<close>

lemma mergePairs_drop:
  assumes "i < length xs"
  shows "mergePairs (drop i xs) =
     (if i + 1 < length xs \<and> xs ! i = xs ! (i + 1)
      then (2 * xs ! i # fst (mergePairs (drop (i + 2) xs)),
            2 * xs ! i + snd (mergePairs (drop (i + 2) xs)))
      else (xs ! i # fst (mergePairs (drop (i + 1) xs)), snd (mergePairs (drop (i + 1) xs))))"
proof (cases "i + 1 < length xs")
  case True
  have "drop i xs = xs ! i # xs ! (i + 1) # drop (i + 2) xs"
    using True by (simp add: Cons_nth_drop_Suc)
  moreover have "drop (i + 1) xs = xs ! (i + 1) # drop (i + 2) xs"
    using True by (simp add: Cons_nth_drop_Suc)
  ultimately show ?thesis using True by simp
next
  case False
  with assms have "drop i xs = [xs ! i]"
    by (metis Cons_nth_drop_Suc Suc_eq_plus1 drop_all not_less)
  moreover from False have "drop (i + 1) xs = []" by simp
  ultimately show ?thesis using False by simp
qed

lemma mergeLoop_mergePairs:
  "mergeLoop xs i acc s =
     (acc @ fst (mergePairs (drop i xs)), s + snd (mergePairs (drop i xs)))"
proof (induction xs i acc s rule: mergeLoop.induct)
  case (1 xs i acc s)
  show ?case
  proof (cases "i < length xs")
    case False
    then show ?thesis by (subst mergeLoop.simps) simp
  next
    case inside: True
    show ?thesis
    proof (cases "i + 1 < length xs \<and> xs ! i = xs ! (i + 1)")
      case True
      have "mergeLoop xs i acc s =
              mergeLoop xs (i + 1 + 1) (acc @ [xs ! i * 2]) (s + xs ! i * 2)"
        using inside True by (subst mergeLoop.simps) simp
      also have "\<dots> = ((acc @ [xs ! i * 2]) @ fst (mergePairs (drop (i + 1 + 1) xs)),
                       (s + xs ! i * 2) + snd (mergePairs (drop (i + 1 + 1) xs)))"
        using "1.IH"(1) [OF inside True] .
      finally show ?thesis
        using True by (simp add: mergePairs_drop [OF inside] mult.commute)
    next
      case False
      have "mergeLoop xs i acc s = mergeLoop xs (i + 1) (acc @ [xs ! i]) s"
        using inside False by (subst mergeLoop.simps) auto
      also have "\<dots> = ((acc @ [xs ! i]) @ fst (mergePairs (drop (i + 1) xs)),
                       s + snd (mergePairs (drop (i + 1) xs)))"
        using "1.IH"(2) [OF inside False] .
      finally show ?thesis
        using False by (auto simp add: mergePairs_drop [OF inside])
    qed
  qed
qed

lemma padLoop_replicate: "padLoop xs = xs @ replicate (GRID_SIZE - length xs) 0"
proof (induction xs rule: padLoop.induct)
  case (1 xs)
  show ?case
  proof (cases "length xs < GRID_SIZE")
    case True
    have "padLoop xs = padLoop (xs @ [0])"
      using True by (subst padLoop.simps) simp
    also have "\<dots> = (xs @ [0]) @ replicate (GRID_SIZE - length (xs @ [0])) 0"
      using "1.IH" [OF True] .
    also have "\<dots> = xs @ replicate (Suc (GRID_SIZE - length (xs @ [0]))) 0"
      by simp
    also have "Suc (GRID_SIZE - length (xs @ [0])) = GRID_SIZE - length xs"
      using True by simp
    finally show ?thesis .
  next
    case False
    then show ?thesis by (subst padLoop.simps) simp
  qed
qed

lemma slideRowLeft_spec: "slideRowLeft row = slideAndMergeLine row"
  by (simp add: slideRowLeft_def slideAndMergeLine_def mergeLoop_mergePairs padLoop_replicate
      Let_def case_prod_beta)

lemma length_mergePairs: "length (fst (mergePairs xs)) \<le> length xs"
  by (induction xs rule: mergePairs.induct) auto

lemma length_slideRowLeft:
  "length row \<le> GRID_SIZE \<Longrightarrow> length (fst (slideRowLeft row)) = GRID_SIZE"
proof -
  assume a: "length row \<le> GRID_SIZE"
  have "length (fst (mergePairs (filter (\<lambda>v. v \<noteq> 0) row))) \<le> length (filter (\<lambda>v. v \<noteq> 0) row)"
    by (rule length_mergePairs)
  also have "\<dots> \<le> length row" by simp
  finally show ?thesis
    using a by (simp add: slideRowLeft_spec slideAndMergeLine_def Let_def)
qed

text \<open>
  C1: \<^verbatim>\<open>slideRowLeft\<close> is the specification's slide-and-merge of a line: the zeros are
  removed in order, consecutive equal values are merged left to right into one tile
  of double value that is added to the score and is not merged again, and the line is
  padded with zeros; a line of N values gives a line of N values, and [2,2,2,2] gives
  [4,4,0,0] with score 8.
\<close>

theorem slideRowLeft_is_slideAndMergeLine:
  "slideRowLeft row = slideAndMergeLine row \<and>
   (length row = GRID_SIZE \<longrightarrow> length (fst (slideRowLeft row)) = GRID_SIZE) \<and>
   slideRowLeft [2, 2, 2, 2] = ([4, 4, 0, 0], 8)"
proof -
  have "slideRowLeft [2, 2, 2, 2] = ([4, 4, 0, 0], 8)"
    by code_simp
  then show ?thesis
    using slideRowLeft_spec [of row] length_slideRowLeft [of row] by simp
qed

theorem slideRowLeft_is_slideAndMergeLine_witness:
  "length [0, 2, 2, 4 :: int] = GRID_SIZE \<and>
   slideRowLeft [0, 2, 2, 4] = ([4, 4, 0, 0], 4) \<and>
   length (fst (slideRowLeft [0, 2, 2, 4])) = GRID_SIZE"
  using slideRowLeft_is_slideAndMergeLine [of "[0, 2, 2, 4]"]
  by (simp add: slideAndMergeLine_def eval_nat_numeral)

subsection \<open>Boards of four rows of four cells\<close>

lemma list4: "length xs = GRID_SIZE \<longleftrightarrow> (\<exists>a b c d. xs = [a, b, c, d])"
  by (auto simp: length_Suc_conv eval_nat_numeral)

lemma is4x4_explicit:
  "is4x4 b \<longleftrightarrow>
     (\<exists>a0 a1 a2 a3 b0 b1 b2 b3 c0 c1 c2 c3 d0 d1 d2 d3.
        b = [[a0, a1, a2, a3], [b0, b1, b2, b3], [c0, c1, c2, c3], [d0, d1, d2, d3]])"
proof
  assume "is4x4 b"
  then have len: "length b = GRID_SIZE" and rows: "\<forall>row \<in> set b. length row = GRID_SIZE"
    by (simp_all add: is4x4_def)
  from len obtain r0 r1 r2 r3 where b: "b = [r0, r1, r2, r3]"
    unfolding list4 by blast
  from rows b have "length r0 = GRID_SIZE" "length r1 = GRID_SIZE"
    "length r2 = GRID_SIZE" "length r3 = GRID_SIZE" by simp_all
  then show "\<exists>a0 a1 a2 a3 b0 b1 b2 b3 c0 c1 c2 c3 d0 d1 d2 d3.
        b = [[a0, a1, a2, a3], [b0, b1, b2, b3], [c0, c1, c2, c3], [d0, d1, d2, d3]]"
    unfolding list4 b by blast
next
  assume "\<exists>a0 a1 a2 a3 b0 b1 b2 b3 c0 c1 c2 c3 d0 d1 d2 d3.
        b = [[a0, a1, a2, a3], [b0, b1, b2, b3], [c0, c1, c2, c3], [d0, d1, d2, d3]]"
  then show "is4x4 b" by (auto simp: is4x4_def)
qed

lemma rotateBoard_explicit:
  "rotateBoard [[a0, a1, a2, a3], [b0, b1, b2, b3], [c0, c1, c2, c3], [d0, d1, d2, d3]] =
     Inr [[d0, c0, b0, a0], [d1, c1, b1, a1], [d2, c2, b2, a2], [d3, c3, b3, a3]]"
  by (simp add: rotateBoard_def upt_rec)

lemma rotateBoard_is4x4: "is4x4 b \<Longrightarrow> \<exists>r. rotateBoard b = Inr r \<and> is4x4 r"
  unfolding is4x4_explicit by (auto simp: rotateBoard_explicit)

text \<open>
  C9: four quarter turns of a grid (four rows of four cells) give the grid back.
\<close>

theorem rotateBoard_four_times:
  assumes "is4x4 b"
  shows "\<exists>r1 r2 r3. rotateBoard b = Inr r1 \<and> rotateBoard r1 = Inr r2 \<and>
           rotateBoard r2 = Inr r3 \<and> rotateBoard r3 = Inr b"
proof -
  from assms obtain a0 a1 a2 a3 b0 b1 b2 b3 c0 c1 c2 c3 d0 d1 d2 d3 where
    "b = [[a0, a1, a2, a3], [b0, b1, b2, b3], [c0, c1, c2, c3], [d0, d1, d2, d3]]"
    unfolding is4x4_explicit by blast
  then show ?thesis by (simp add: rotateBoard_explicit)
qed

theorem rotateBoard_four_times_witness:
  "is4x4 [[2, 0, 4, 0], [0, 8, 0, 0], [2, 2, 0, 16], [0, 0, 0, 4]] \<and>
   (\<exists>r1 r2 r3.
      rotateBoard [[2, 0, 4, 0], [0, 8, 0, 0], [2, 2, 0, 16], [0, 0, 0, 4]] = Inr r1 \<and>
      rotateBoard r1 = Inr r2 \<and> rotateBoard r2 = Inr r3 \<and>
      rotateBoard r3 = Inr [[2, 0, 4, 0], [0, 8, 0, 0], [2, 2, 0, 16], [0, 0, 0, 4]])"
proof -
  have h: "is4x4 [[2, 0, 4, 0], [0, 8, 0, 0], [2, 2, 0, 16], [0, 0, 0, 4]]"
    by (simp add: is4x4_def)
  show ?thesis using h rotateBoard_four_times [OF h] by simp
qed

subsection \<open>The move before the spawn\<close>

lemma is4x4_slid: "is4x4 t \<Longrightarrow> is4x4 (map (\<lambda>row. fst (slideRowLeft row)) t)"
  by (simp add: is4x4_def length_slideRowLeft)

lemma rotateTimes_3_explicit:
  "rotateTimes 3 [[a0, a1, a2, a3], [b0, b1, b2, b3], [c0, c1, c2, c3], [d0, d1, d2, d3]] =
     Inr [[a3, b3, c3, d3], [a2, b2, c2, d2], [a1, b1, c1, d1], [a0, b0, c0, d0]]"
  by (simp add: numeral_3_eq_3 rotateBoard_explicit)

lemma rotateBack_turns:
  assumes "is4x4 s" and "k \<le> 3"
  shows "rotateBack k s = rotateTimes ((4 - k) mod 4) s"
proof -
  from assms(1) obtain a0 a1 a2 a3 b0 b1 b2 b3 c0 c1 c2 c3 d0 d1 d2 d3 where
    s: "s = [[a0, a1, a2, a3], [b0, b1, b2, b3], [c0, c1, c2, c3], [d0, d1, d2, d3]]"
    unfolding is4x4_explicit by blast
  from assms(2) consider "k = 0" | "k = 1" | "k = 2" | "k = 3" by linarith
  then show ?thesis
  proof cases
    case 1
    then show ?thesis by simp
  next
    case 2
    show ?thesis unfolding 2 s
      by (simp add: rotateTimes_3_explicit numeral_3_eq_3 [symmetric])
  next
    case 3
    have "rotateBack 2 s = rotateTimes 2 s"
      unfolding s by (simp add: numeral_2_eq_2 rotateTimes_3_explicit rotateBoard_explicit)
    then show ?thesis unfolding 3 by simp
  next
    case 4
    have "rotateBack 3 s = rotateTimes 1 s"
      unfolding s by (simp add: numeral_3_eq_3 rotateTimes_3_explicit rotateBoard_explicit)
    then show ?thesis unfolding 4 by simp
  qed
qed


lemma rotateTimes_is4x4: "is4x4 b \<Longrightarrow> \<exists>r. rotateTimes n b = Inr r \<and> is4x4 r"
proof (induction n arbitrary: b)
  case 0
  then show ?case by simp
next
  case (Suc n)
  from rotateBoard_is4x4 [OF Suc.prems] obtain r where r: "rotateBoard b = Inr r" "is4x4 r"
    by blast
  with Suc.IH [of r] show ?case by simp
qed

lemma slideRows_all:
  assumes "length t = GRID_SIZE"
  shows "slideRows [0..<GRID_SIZE] t 0 =
           Inr (map (\<lambda>row. fst (slideRowLeft row)) t,
                sum_list (map (\<lambda>row. snd (slideRowLeft row)) t))"
proof -
  from assms obtain r0 r1 r2 r3 where "t = [r0, r1, r2, r3]"
    unfolding list4 by blast
  then show ?thesis
    by (simp add: upt_rec case_prod_beta)
qed

lemma rotations_le: "rotations d \<le> 3"
  by (cases d) simp_all

lemma moveBoard_turned:
  assumes "is4x4 b"
  shows "\<exists>turned restored. rotateTimes (rotations d) b = Inr turned \<and> is4x4 turned \<and>
           rotateTimes ((4 - rotations d) mod 4) (map (\<lambda>row. fst (slideRowLeft row)) turned)
             = Inr restored \<and> is4x4 restored \<and>
           moveBoard b d = Inr (restored, sum_list (map (\<lambda>row. snd (slideRowLeft row)) turned))"
proof -
  from rotateTimes_is4x4 [OF assms] obtain turned where
    t: "rotateTimes (rotations d) b = Inr turned" "is4x4 turned" by blast
  let ?slid = "map (\<lambda>row. fst (slideRowLeft row)) turned"
  have s: "is4x4 ?slid" using t(2) by (rule is4x4_slid)
  from rotateTimes_is4x4 [OF s] obtain restored where
    r: "rotateTimes ((4 - rotations d) mod 4) ?slid = Inr restored" "is4x4 restored" by blast
  have len: "length turned = GRID_SIZE" using t(2) by (simp add: is4x4_def)
  have rb: "rotateBack (rotations d) ?slid = Inr restored"
    using rotateBack_turns [OF s rotations_le, of d] r(1) by simp
  have "moveBoard b d = Inr (restored, sum_list (map (\<lambda>row. snd (slideRowLeft row)) turned))"
  proof -
    have sl: "slideRows [0..<GRID_SIZE] turned 0 = Inr (?slid, sum_list (map (\<lambda>row. snd (slideRowLeft row)) turned))"
      using len by (rule slideRows_all)
    show ?thesis
      unfolding moveBoard_def t(1) sum.case sl old.prod.case rb ..
  qed
  with t r show ?thesis by blast
qed

text \<open>
  C2: on every grid and for every direction, the board and score that \<^verbatim>\<open>move\<close> computes
  before the spawn are those of the specification's composition: k quarter turns, the
  line slide on each row with the scores summed, and (4 - k) mod 4 further quarter
  turns. (The code turns back with 3k quarter turns, which is the same grid.)
\<close>

theorem moveBoard_is_normalizedMove:
  assumes "is4x4 grid"
  shows "moveBoard grid d = normalizedMove grid d \<and>
         (\<exists>r delta. moveBoard grid d = Inr (r, delta))"
proof -
  from moveBoard_turned [OF assms, of d] obtain turned restored where
    h: "rotateTimes (rotations d) grid = Inr turned"
       "rotateTimes ((4 - rotations d) mod 4) (map (\<lambda>row. fst (slideRowLeft row)) turned)
             = Inr restored"
       "moveBoard grid d = Inr (restored, sum_list (map (\<lambda>row. snd (slideRowLeft row)) turned))"
    by blast
  have k: "(case d of Left \<Rightarrow> 0 | Up \<Rightarrow> 1 | Right \<Rightarrow> 2 | Down \<Rightarrow> 3) = rotations d"
    by (cases d) simp_all
  have "normalizedMove grid d =
          Inr (restored, sum_list (map (\<lambda>row. snd (slideRowLeft row)) turned))"
    unfolding normalizedMove_def k Let_def
    using h(1,2) by (simp add: slideRowLeft_spec)
  with h(3) show ?thesis by simp
qed

theorem moveBoard_is_normalizedMove_witness:
  "is4x4 [[2, 2, 4, 4], [0, 2, 0, 2], [8, 0, 0, 0], [2, 4, 2, 4]] \<and>
   moveBoard [[2, 2, 4, 4], [0, 2, 0, 2], [8, 0, 0, 0], [2, 4, 2, 4]] Right =
     normalizedMove [[2, 2, 4, 4], [0, 2, 0, 2], [8, 0, 0, 0], [2, 4, 2, 4]] Right \<and>
   moveBoard [[2, 2, 4, 4], [0, 2, 0, 2], [8, 0, 0, 0], [2, 4, 2, 4]] Right =
     Inr ([[0, 0, 4, 8], [0, 0, 0, 4], [0, 0, 0, 8], [2, 4, 2, 4]], 16)"
proof -
  have h: "is4x4 [[2, 2, 4, 4], [0, 2, 0, 2], [8, 0, 0, 0], [2, 4, 2, 4]]"
    by (simp add: is4x4_def)
  have v: "moveBoard [[2, 2, 4, 4], [0, 2, 0, 2], [8, 0, 0, 0], [2, 4, 2, 4]] Right =
     Inr ([[0, 0, 4, 8], [0, 0, 0, 4], [0, 0, 0, 8], [2, 4, 2, 4]], 16)"
    by code_simp
  show ?thesis using h v moveBoard_is_normalizedMove [OF h, of Right] by simp
qed

subsection \<open>A move that changes nothing\<close>

text \<open>
  C4: on every grid and for every direction the board before the spawn is computed
  without an error, and when it equals the input grid the move returns the state as it
  was (board, score and game-over flag), whatever the draws would have been; the row
  [2,0,0,0] slides to itself with score 0.
\<close>

theorem move_unchanged_is_noop:
  assumes "is4x4 (board g)"
  shows "(\<exists>tempBoard delta. moveBoard (board g) d = Inr (tempBoard, delta) \<and>
           (tempBoard = board g \<longrightarrow> move g d pick small = Inr g)) \<and>
         slideRowLeft [2, 0, 0, 0] = ([2, 0, 0, 0], 0)"
proof -
  from moveBoard_turned [OF assms, of d] obtain t delta where
    m: "moveBoard (board g) d = Inr (t, delta)" by blast
  have "move g d pick small = Inr g" if "t = board g"
    using that m by (simp add: move_def)
  moreover have "slideRowLeft [2, 0, 0, 0] = ([2, 0, 0, 0], 0)"
    by code_simp
  ultimately show ?thesis using m by blast
qed

theorem move_unchanged_is_noop_witness:
  "is4x4 (board \<lparr>board = [[2, 0, 0, 0], [4, 2, 0, 0], [0, 0, 0, 0], [8, 0, 0, 0]],
                 score = 12, gameOver = False\<rparr>) \<and>
   moveBoard [[2, 0, 0, 0], [4, 2, 0, 0], [0, 0, 0, 0], [8, 0, 0, 0]] Left =
     Inr ([[2, 0, 0, 0], [4, 2, 0, 0], [0, 0, 0, 0], [8, 0, 0, 0]], 0) \<and>
   move \<lparr>board = [[2, 0, 0, 0], [4, 2, 0, 0], [0, 0, 0, 0], [8, 0, 0, 0]],
         score = 12, gameOver = False\<rparr> Left (\<lambda>n. 0) True =
     Inr \<lparr>board = [[2, 0, 0, 0], [4, 2, 0, 0], [0, 0, 0, 0], [8, 0, 0, 0]],
          score = 12, gameOver = False\<rparr>"
proof -
  have h: "is4x4 (board \<lparr>board = [[2, 0, 0, 0], [4, 2, 0, 0], [0, 0, 0, 0], [8, 0, 0, 0]],
                          score = 12, gameOver = False\<rparr>)"
    by (simp add: is4x4_def)
  have v: "moveBoard [[2, 0, 0, 0], [4, 2, 0, 0], [0, 0, 0, 0], [8, 0, 0, 0]] Left =
     Inr ([[2, 0, 0, 0], [4, 2, 0, 0], [0, 0, 0, 0], [8, 0, 0, 0]], 0)"
    by code_simp
  show ?thesis
    using h v move_unchanged_is_noop [OF h, of Left "\<lambda>n. 0" True] by simp
qed

subsection \<open>The terminal test\<close>

lemma cellAt_4x4:
  "is4x4 b \<Longrightarrow> i < GRID_SIZE \<Longrightarrow> j < GRID_SIZE \<Longrightarrow> cellAt (b ! i) j = Some (b ! i ! j)"
  by (simp add: is4x4_def cellAt_def)

lemma isGameOverScan_4x4:
  assumes "is4x4 b"
  shows "(\<forall>p \<in> set ps. fst p < GRID_SIZE \<and> snd p < GRID_SIZE) \<Longrightarrow>
     isGameOverScan b ps =
       Inr (\<forall>p \<in> set ps. b ! fst p ! snd p \<noteq> 0 \<and>
              (fst p < GRID_SIZE - 1 \<longrightarrow> b ! fst p ! snd p \<noteq> b ! (fst p + 1) ! snd p) \<and>
              (snd p < GRID_SIZE - 1 \<longrightarrow> b ! fst p ! snd p \<noteq> b ! fst p ! (snd p + 1)))"
proof (induction ps)
  case Nil
  then show ?case by simp
next
  case (Cons p ps)
  obtain i j where p: "p = (i, j)" by (cases p)
  from Cons.prems p have ij: "i < GRID_SIZE" "j < GRID_SIZE" by simp_all
  have len: "length b = GRID_SIZE" using assms by (simp add: is4x4_def)
  have c: "cellAt (b ! i) j = Some (b ! i ! j)" using assms ij by (rule cellAt_4x4)
  have cd: "cellAt (b ! (i + 1)) j = Some (b ! (i + 1) ! j)" if "i < GRID_SIZE - 1"
    using that assms ij by (intro cellAt_4x4) simp_all
  have cr: "cellAt (b ! i) (j + 1) = Some (b ! i ! (j + 1))" if "j < GRID_SIZE - 1"
    using that assms ij by (intro cellAt_4x4) simp_all
  from Cons have IH: "isGameOverScan b ps =
       Inr (\<forall>p \<in> set ps. b ! fst p ! snd p \<noteq> 0 \<and>
              (fst p < GRID_SIZE - 1 \<longrightarrow> b ! fst p ! snd p \<noteq> b ! (fst p + 1) ! snd p) \<and>
              (snd p < GRID_SIZE - 1 \<longrightarrow> b ! fst p ! snd p \<noteq> b ! fst p ! (snd p + 1)))"
    by simp
  show ?case
    unfolding p using ij len c cd cr IH by auto
qed

lemma isGameOver_isTerminal:
  assumes "is4x4 b"
  shows "isGameOver b = Inr (isTerminal b)"
proof -
  have "isGameOver b =
          Inr (\<forall>p \<in> set [(i, j). i \<leftarrow> [0..<GRID_SIZE], j \<leftarrow> [0..<GRID_SIZE]].
                 b ! fst p ! snd p \<noteq> 0 \<and>
                 (fst p < GRID_SIZE - 1 \<longrightarrow> b ! fst p ! snd p \<noteq> b ! (fst p + 1) ! snd p) \<and>
                 (snd p < GRID_SIZE - 1 \<longrightarrow> b ! fst p ! snd p \<noteq> b ! fst p ! (snd p + 1)))"
    unfolding isGameOver_def
    by (rule isGameOverScan_4x4 [OF assms]) auto
  also have "set [(i, j). i \<leftarrow> [0..<GRID_SIZE], j \<leftarrow> [0..<GRID_SIZE]] =
               {0..<GRID_SIZE} \<times> {0..<GRID_SIZE}"
    by auto
  finally show ?thesis
    unfolding isTerminal_def by (auto simp del: One_nat_def)
qed

lemma is4x4_update:
  assumes "is4x4 b" and "i < GRID_SIZE"
  shows "is4x4 (b[i := (b ! i)[j := v]])"
proof -
  have "length row = GRID_SIZE" if "row \<in> set (b[i := (b ! i)[j := v]])" for row
  proof -
    from that have "row = (b ! i)[j := v] \<or> row \<in> set b"
      using set_update_subset_insert [of b i "(b ! i)[j := v]"] by auto
    moreover have "b ! i \<in> set b" using assms by (simp add: is4x4_def)
    ultimately show ?thesis using assms(1) by (auto simp: is4x4_def)
  qed
  then show ?thesis using assms(1) by (simp add: is4x4_def)
qed

text \<open>
  C5: on every grid \<^verbatim>\<open>isGameOver\<close> returns true exactly when every cell is non-zero and
  no two horizontally or vertically adjacent cells are equal; so it returns true on a
  full grid without an adjacent equal pair, and false once any one cell is set to 0.
\<close>

theorem isGameOver_iff_terminal:
  assumes "is4x4 b"
  shows "isGameOver b = Inr (isTerminal b) \<and>
         (\<forall>i \<in> {0..<GRID_SIZE}. \<forall>j \<in> {0..<GRID_SIZE}.
            isGameOver (b[i := (b ! i)[j := 0]]) = Inr False)"
proof -
  have "isGameOver (b[i := (b ! i)[j := 0]]) = Inr False"
    if ij: "i < GRID_SIZE" "j < GRID_SIZE" for i j
  proof -
    let ?z = "b[i := (b ! i)[j := 0]]"
    have z: "is4x4 ?z" using assms ij(1) by (rule is4x4_update)
    have "?z ! i ! j = 0" using assms ij by (simp add: is4x4_def)
    then have "\<not> isTerminal ?z" using ij by (auto simp: isTerminal_def)
    then show ?thesis by (simp add: isGameOver_isTerminal [OF z])
  qed
  then show ?thesis using isGameOver_isTerminal [OF assms] by simp
qed

theorem isGameOver_iff_terminal_witness:
  "is4x4 [[2, 4, 2, 4], [4, 2, 4, 2], [2, 4, 2, 4], [4, 2, 4, 8]] \<and>
   isTerminal [[2, 4, 2, 4], [4, 2, 4, 2], [2, 4, 2, 4], [4, 2, 4, 8]] \<and>
   isGameOver [[2, 4, 2, 4], [4, 2, 4, 2], [2, 4, 2, 4], [4, 2, 4, 8]] = Inr True \<and>
   (2::nat) \<in> {0..<GRID_SIZE} \<and> (1::nat) \<in> {0..<GRID_SIZE} \<and>
   isGameOver [[2, 4, 2, 4], [4, 2, 4, 2], [2, 0, 2, 4], [4, 2, 4, 8]] = Inr False"
proof -
  have h: "is4x4 [[2, 4, 2, 4], [4, 2, 4, 2], [2, 4, 2, 4], [4, 2, 4, 8]]"
    by (simp add: is4x4_def)
  have t: "isTerminal [[2, 4, 2, 4], [4, 2, 4, 2], [2, 4, 2, 4], [4, 2, 4, 8]]"
    by code_simp
  note c = isGameOver_iff_terminal [OF h]
  from c have a: "isGameOver [[2, 4, 2, 4], [4, 2, 4, 2], [2, 4, 2, 4], [4, 2, 4, 8]] =
          Inr (isTerminal [[2, 4, 2, 4], [4, 2, 4, 2], [2, 4, 2, 4], [4, 2, 4, 8]])"
    by (rule conjunct1)
  from c have "\<forall>i \<in> {0..<GRID_SIZE}. \<forall>j \<in> {0..<GRID_SIZE}.
      isGameOver ([[2, 4, 2, 4], [4, 2, 4, 2], [2, 4, 2, 4], [4, 2, 4, 8]]
        [i := ([[2, 4, 2, 4], [4, 2, 4, 2], [2, 4, 2, 4], [4, 2, 4, 8]] ! i)[j := 0]])
      = Inr False"
    by (rule conjunct2)
  then have "\<forall>j \<in> {0..<GRID_SIZE}.
      isGameOver ([[2, 4, 2, 4], [4, 2, 4, 2], [2, 4, 2, 4], [4, 2, 4, 8]]
        [2 := ([[2, 4, 2, 4], [4, 2, 4, 2], [2, 4, 2, 4], [4, 2, 4, 8]] ! 2)[j := 0]])
      = Inr False"
    by (rule bspec) simp
  then have "isGameOver ([[2, 4, 2, 4], [4, 2, 4, 2], [2, 4, 2, 4], [4, 2, 4, 8]]
        [2 := ([[2, 4, 2, 4], [4, 2, 4, 2], [2, 4, 2, 4], [4, 2, 4, 8]] ! 2)[1 := 0]])
      = Inr False"
    by (rule bspec) simp
  then have z: "isGameOver [[2, 4, 2, 4], [4, 2, 4, 2], [2, 0, 2, 4], [4, 2, 4, 8]] = Inr False"
    by (simp add: eval_nat_numeral)
  show ?thesis using h t a z by simp
qed

subsection \<open>Spawning on a full grid\<close>

lemma set_emptyCells:
  "set (emptyCells b) = {(i, j). i < GRID_SIZE \<and> j < GRID_SIZE \<and> cellAt (b ! i) j = Some 0}"
  by (auto simp: emptyCells_def)

text \<open>
  C10: on a grid without an empty cell \<^verbatim>\<open>addRandomTile\<close> returns the grid it was given,
  without an error and without a draw.
\<close>

theorem addRandomTile_full_grid:
  assumes "is4x4 b" and "0 \<notin> set (concat b)"
  shows "addRandomTile b pick small = Inr b"
proof -
  have "b ! i ! j \<noteq> 0" if "i < GRID_SIZE" "j < GRID_SIZE" for i j
  proof -
    from assms(1) that have "b ! i \<in> set b" "b ! i ! j \<in> set (b ! i)"
      by (simp_all add: is4x4_def)
    with assms(2) show ?thesis by auto
  qed
  then have "set (emptyCells b) = {}"
    using assms(1) by (auto simp: set_emptyCells cellAt_4x4)
  then have "emptyCells b = []" by simp
  then show ?thesis using assms(1) by (simp add: addRandomTile_def is4x4_def)
qed

theorem addRandomTile_full_grid_witness:
  "is4x4 [[2, 4, 2, 4], [4, 2, 4, 2], [2, 4, 2, 4], [4, 2, 4, 8]] \<and>
   0 \<notin> set (concat [[2, 4, 2, 4], [4, 2, 4, 2], [2, 4, 2, 4], [4, 2, 4, 8 :: int]]) \<and>
   addRandomTile [[2, 4, 2, 4], [4, 2, 4, 2], [2, 4, 2, 4], [4, 2, 4, 8]] (\<lambda>n. 0) True =
     Inr [[2, 4, 2, 4], [4, 2, 4, 2], [2, 4, 2, 4], [4, 2, 4, 8]]"
proof -
  have h1: "is4x4 [[2, 4, 2, 4], [4, 2, 4, 2], [2, 4, 2, 4], [4, 2, 4, 8]]"
    by (simp add: is4x4_def)
  have h2: "0 \<notin> set (concat [[2, 4, 2, 4], [4, 2, 4, 2], [2, 4, 2, 4], [4, 2, 4, 8 :: int]])"
    by simp
  show ?thesis using h1 h2 addRandomTile_full_grid [OF h1 h2, of "\<lambda>n. 0" True] by simp
qed

subsection \<open>The input handlers\<close>

text \<open>
  C6: the key handler passes to \<^verbatim>\<open>move\<close> the vertically inverted direction (ArrowUp
  gives down, ArrowDown gives up, ArrowLeft left, ArrowRight right, any other key
  nothing), while the touch handler passes the label of the gesture: a swipe of more
  than 30 units that is not mainly horizontal gives up when it goes up the screen
  (\<open>dy < 0\<close>) and down when it goes down. The arrow key of the same physical direction
  gives the opposite direction.
\<close>

theorem handlers_vertical_directions:
  "handleKeyDown ''ArrowUp'' = Some Down \<and>
   handleKeyDown ''ArrowDown'' = Some Up \<and>
   handleKeyDown ''ArrowLeft'' = Some Left \<and>
   handleKeyDown ''ArrowRight'' = Some Right \<and>
   (key \<notin> {''ArrowUp'', ''ArrowDown'', ''ArrowLeft'', ''ArrowRight''} \<longrightarrow>
      handleKeyDown key = None) \<and>
   handleTouchEnd (Some (startX, startY)) [(endX, endY)] =
     swipe (endX - startX) (endY - startY) \<and>
   (max \<bar>dx\<bar> \<bar>dy\<bar> > 30 \<and> \<not> \<bar>dx\<bar> > \<bar>dy\<bar> \<longrightarrow>
      dy \<noteq> 0 \<and>
      swipe dx dy = Some (if dy < 0 then Up else Down) \<and>
      handleKeyDown (if dy < 0 then ''ArrowUp'' else ''ArrowDown'') =
        Some (if dy < 0 then Down else Up))"
  by (auto simp: handleKeyDown_def handleTouchEnd_def swipe_def Let_def)

theorem handlers_vertical_directions_witness:
  "''Enter'' \<notin> {''ArrowUp'', ''ArrowDown'', ''ArrowLeft'', ''ArrowRight''} \<and>
   handleKeyDown ''Enter'' = None \<and>
   max \<bar>5 :: real\<bar> \<bar>- 40 :: real\<bar> > 30 \<and> \<not> \<bar>5 :: real\<bar> > \<bar>- 40 :: real\<bar> \<and>
   handleTouchEnd (Some (100, 200)) [(105, 160)] = Some Up \<and>
   handleKeyDown ''ArrowUp'' = Some Down \<and>
   max \<bar>- 3 :: real\<bar> \<bar>31 :: real\<bar> > 30 \<and> \<not> \<bar>- 3 :: real\<bar> > \<bar>31 :: real\<bar> \<and>
   handleTouchEnd (Some (50, 60)) [(47, 91)] = Some Down \<and>
   handleKeyDown ''ArrowDown'' = Some Up"
  using handlers_vertical_directions [of "''Enter''" 100 200 105 160 5 "- 40"]
    handlers_vertical_directions [of "''Enter''" 50 60 47 91 "- 3" 31]
  by simp

subsection \<open>Cells and tile values\<close>

lemma rotateBoard_mset:
  assumes "is4x4 b"
  shows "\<exists>r. rotateBoard b = Inr r \<and> is4x4 r \<and> mset (concat r) = mset (concat b)"
proof -
  from assms obtain a0 a1 a2 a3 b0 b1 b2 b3 c0 c1 c2 c3 d0 d1 d2 d3 where
    b: "b = [[a0, a1, a2, a3], [b0, b1, b2, b3], [c0, c1, c2, c3], [d0, d1, d2, d3]]"
    unfolding is4x4_explicit by blast
  have "is4x4 [[d0, c0, b0, a0], [d1, c1, b1, a1], [d2, c2, b2, a2], [d3, c3, b3, a3]]"
    by (simp add: is4x4_def)
  moreover have
    "mset (concat [[d0, c0, b0, a0], [d1, c1, b1, a1], [d2, c2, b2, a2], [d3, c3, b3, a3]]) =
     mset (concat [[a0, a1, a2, a3], [b0, b1, b2, b3], [c0, c1, c2, c3], [d0, d1, d2, d3]])"
    by simp
  ultimately show ?thesis unfolding b rotateBoard_explicit by blast
qed

lemma rotateTimes_mset:
  "is4x4 b \<Longrightarrow> \<exists>r. rotateTimes n b = Inr r \<and> is4x4 r \<and> mset (concat r) = mset (concat b)"
proof (induction n arbitrary: b)
  case 0
  then show ?case by simp
next
  case (Suc n)
  from rotateBoard_mset [OF Suc.prems] obtain r where
    r: "rotateBoard b = Inr r" "is4x4 r" "mset (concat r) = mset (concat b)" by blast
  from Suc.IH [OF r(2)] r(1,3) show ?case by simp
qed

lemma nonZeroCount_mset: "nonZeroCount b = size (filter_mset (\<lambda>v. v \<noteq> 0) (mset (concat b)))"
  by (simp add: nonZeroCount_def flip: mset_filter)

lemma le_nat_pow2: "n \<le> nat (2 ^ n :: int)"
proof -
  have "n \<le> 2 ^ n" using less_exp [of n] by (rule less_imp_le)
  also have "(2 ^ n :: nat) = nat (2 ^ n :: int)" by (simp add: nat_power_eq)
  finally show ?thesis .
qed

lemma tileValue_iff: "tileValue v \<longleftrightarrow> v = 0 \<or> (\<exists>n\<ge>1. v = 2 ^ n)"
proof (cases "v = 0")
  case True
  then show ?thesis by (simp add: tileValue_def)
next
  case False
  have "(\<exists>n \<in> {1..nat v}. v = 2 ^ n) \<longleftrightarrow> (\<exists>n\<ge>1. v = 2 ^ n)"
  proof
    assume "\<exists>n \<in> {1..nat v}. v = 2 ^ n"
    then obtain n where "n \<in> {1..nat v}" "v = 2 ^ n" by blast
    then have "1 \<le> n \<and> v = 2 ^ n" by simp
    then show "\<exists>n\<ge>1. v = 2 ^ n" by blast
  next
    assume "\<exists>n\<ge>1. v = 2 ^ n"
    then obtain n where n: "1 \<le> n" "v = 2 ^ n" by blast
    have "n \<le> nat v" unfolding n(2) by (rule le_nat_pow2)
    with n have "n \<in> {1..nat v}" by simp
    with n(2) show "\<exists>n \<in> {1..nat v}. v = 2 ^ n" by blast
  qed
  with False show ?thesis by (simp add: tileValue_def)
qed

lemma tileValue_2_4: "tileValue 2" "tileValue 4" "tileValue 0"
  by code_simp+


lemma tileValue_double: "tileValue v \<Longrightarrow> v \<noteq> 0 \<Longrightarrow> tileValue (2 * v)"
  unfolding tileValue_iff
proof -
  assume "v = 0 \<or> (\<exists>n\<ge>1. v = 2 ^ n)" "v \<noteq> 0"
  then obtain n where "1 \<le> n" "v = 2 ^ n" by blast
  then have "1 \<le> Suc n" "2 * v = 2 ^ Suc n" by simp_all
  then show "2 * v = 0 \<or> (\<exists>n\<ge>1. 2 * v = 2 ^ n)" by blast
qed

lemma tileValue_nonneg: "tileValue v \<Longrightarrow> 0 \<le> v"
  unfolding tileValue_iff by auto

lemma mergePairs_tiles:
  "(\<And>v. v \<in> set xs \<Longrightarrow> tileValue v \<and> v \<noteq> 0) \<Longrightarrow>
   v \<in> set (fst (mergePairs xs)) \<Longrightarrow> tileValue v \<and> v \<noteq> 0"
proof (induction xs arbitrary: v rule: mergePairs.induct)
  case (1 x y xs)
  show ?case
  proof (cases "x = y")
    case True
    with "1.prems"(2) have "v = 2 * x \<or> v \<in> set (fst (mergePairs xs))" by simp
    then show ?thesis
    proof
      assume "v = 2 * x"
      moreover have "tileValue x \<and> x \<noteq> 0" using "1.prems"(1) by simp
      ultimately show ?thesis by (simp add: tileValue_double)
    next
      assume "v \<in> set (fst (mergePairs xs))"
      then show ?thesis using "1.IH"(1) [OF True] "1.prems"(1) by simp
    qed
  next
    case False
    with "1.prems"(2) have "v = x \<or> v \<in> set (fst (mergePairs (y # xs)))" by simp
    then show ?thesis
    proof
      assume "v = x"
      then show ?thesis using "1.prems"(1) by simp
    next
      assume "v \<in> set (fst (mergePairs (y # xs)))"
      then show ?thesis using "1.IH"(3) [OF False] "1.prems"(1) by simp
    qed
  qed
qed simp_all


lemma mergePairs_score_nonneg:
  "(\<And>v. v \<in> set xs \<Longrightarrow> 0 \<le> v) \<Longrightarrow> 0 \<le> snd (mergePairs xs)"
proof (induction xs rule: mergePairs.induct)
  case (1 x y xs)
  show ?case
  proof (cases "x = y")
    case True
    have "0 \<le> x" using "1.prems" by simp
    moreover have "0 \<le> snd (mergePairs xs)" using "1.IH"(2) [OF True] "1.prems" by simp
    ultimately show ?thesis using True by simp
  next
    case False
    have "0 \<le> snd (mergePairs (y # xs))" using "1.IH"(4) [OF False] "1.prems" by simp
    then show ?thesis using False by simp
  qed
qed simp_all

lemma slideRowLeft_tiles:
  assumes "\<And>v. v \<in> set row \<Longrightarrow> tileValue v"
  shows "v \<in> set (fst (slideRowLeft row)) \<Longrightarrow> tileValue v"
proof -
  assume "v \<in> set (fst (slideRowLeft row))"
  then have "v \<in> set (fst (mergePairs (filter (\<lambda>v. v \<noteq> 0) row))) \<or> v = 0"
    by (auto simp: slideRowLeft_spec slideAndMergeLine_def Let_def)
  then show ?thesis
  proof
    assume "v \<in> set (fst (mergePairs (filter (\<lambda>v. v \<noteq> 0) row)))"
    then have "tileValue v \<and> v \<noteq> 0"
      by (rule mergePairs_tiles [rotated]) (simp add: assms)
    then show ?thesis by simp
  next
    assume "v = 0"
    then show ?thesis by (simp add: tileValue_2_4)
  qed
qed

lemma slideRowLeft_score_nonneg:
  assumes "\<And>v. v \<in> set row \<Longrightarrow> tileValue v"
  shows "0 \<le> snd (slideRowLeft row)"
proof -
  have "0 \<le> snd (mergePairs (filter (\<lambda>v. v \<noteq> 0) row))"
    by (rule mergePairs_score_nonneg) (simp add: assms tileValue_nonneg)
  then show ?thesis by (simp add: slideRowLeft_spec slideAndMergeLine_def Let_def)
qed

lemma wellFormed_cells:
  "wellFormed b \<longleftrightarrow> is4x4 b \<and> (\<forall>v \<in> set (concat b). tileValue v)"
  by (auto simp: wellFormed_def)

lemma rotateTimes_wellFormed:
  assumes "wellFormed b"
  shows "\<exists>r. rotateTimes n b = Inr r \<and> wellFormed r"
proof -
  from assms have b: "is4x4 b" "\<forall>v \<in> set (concat b). tileValue v"
    by (simp_all add: wellFormed_cells)
  from rotateTimes_mset [OF b(1), of n] obtain r where
    r: "rotateTimes n b = Inr r" "is4x4 r" "mset (concat r) = mset (concat b)" by blast
  from r(3) have "set (concat r) = set (concat b)" by (rule mset_eq_setD)
  with b(2) r(2) have "wellFormed r" by (simp add: wellFormed_cells)
  with r(1) show ?thesis by blast
qed

lemma rotateBoard_wellFormed:
  assumes "wellFormed b"
  shows "\<exists>r. rotateBoard b = Inr r \<and> wellFormed r"
proof -
  from rotateTimes_wellFormed [OF assms, of "Suc 0"] obtain r where
    r: "rotateTimes (Suc 0) b = Inr r" "wellFormed r" by blast
  from r(1) have "rotateBoard b = Inr r" by (simp split: sum.splits)
  with r(2) show ?thesis by blast
qed

lemma slid_wellFormed:
  assumes "wellFormed t"
  shows "wellFormed (map (\<lambda>row. fst (slideRowLeft row)) t)"
proof -
  from assms have t: "is4x4 t" "\<And>row v. row \<in> set t \<Longrightarrow> v \<in> set row \<Longrightarrow> tileValue v"
    by (simp_all add: wellFormed_def)
  have "tileValue v" if "row \<in> set t" "v \<in> set (fst (slideRowLeft row))" for row v
    using that(2) by (rule slideRowLeft_tiles [rotated]) (rule t(2) [OF that(1)])
  then show ?thesis
    using is4x4_slid [OF t(1)] by (auto simp: wellFormed_def)
qed

lemma slid_score_nonneg:
  assumes "wellFormed t"
  shows "0 \<le> sum_list (map (\<lambda>row. snd (slideRowLeft row)) t)"
proof (rule sum_list_nonneg)
  fix x assume "x \<in> set (map (\<lambda>row. snd (slideRowLeft row)) t)"
  then obtain row where row: "row \<in> set t" "x = snd (slideRowLeft row)" by auto
  have "0 \<le> snd (slideRowLeft row)"
    by (rule slideRowLeft_score_nonneg) (use assms row(1) in \<open>simp add: wellFormed_def\<close>)
  with row(2) show "0 \<le> x" by simp
qed

lemma moveBoard_wellFormed:
  assumes "wellFormed b"
  shows "\<exists>t delta. moveBoard b d = Inr (t, delta) \<and> wellFormed t \<and> 0 \<le> delta"
proof -
  from assms have b: "is4x4 b" by (simp add: wellFormed_def)
  from moveBoard_turned [OF b, of d] obtain turned restored where
    h: "rotateTimes (rotations d) b = Inr turned"
       "rotateTimes ((4 - rotations d) mod 4) (map (\<lambda>row. fst (slideRowLeft row)) turned)
             = Inr restored"
       "moveBoard b d = Inr (restored, sum_list (map (\<lambda>row. snd (slideRowLeft row)) turned))"
    by blast
  from rotateTimes_wellFormed [OF assms, of "rotations d"] h(1)
  have t: "wellFormed turned" by simp
  from rotateTimes_wellFormed [OF slid_wellFormed [OF t], of "(4 - rotations d) mod 4"] h(2)
  have "wellFormed restored" by simp
  with h(3) slid_score_nonneg [OF t] show ?thesis by blast
qed

subsection \<open>Well-formed grids stay well-formed\<close>

lemma length_inner_cells:
  "length (concat (map (\<lambda>j. if P j then [f j] else []) js)) \<le> length js"
  by (induction js) simp_all

lemma length_outer_cells:
  "length (concat (map (\<lambda>i. concat (map (\<lambda>j. if P i j then [f i j] else []) js)) is))
     \<le> length is * length js"
proof (induction "is")
  case Nil
  then show ?case by simp
next
  case (Cons i "is")
  have "length (concat (map (\<lambda>j. if P i j then [f i j] else []) js)) \<le> length js"
    by (rule length_inner_cells)
  with Cons show ?case by simp
qed

lemma length_emptyCells: "length (emptyCells b) \<le> GRID_SIZE * GRID_SIZE"
proof -
  have "length (emptyCells b) \<le> length [0..<GRID_SIZE] * length [0..<GRID_SIZE]"
    unfolding emptyCells_def by (rule length_outer_cells)
  then show ?thesis by simp
qed

lemma addRandomTile_spawn:
  assumes "is4x4 b" and "validPick pick" and "emptyCells b \<noteq> []"
  shows "\<exists>x y. x < GRID_SIZE \<and> y < GRID_SIZE \<and> b ! x ! y = 0 \<and>
           addRandomTile b pick small = Inr (b[x := (b ! x)[y := (if small then 2 else 4)]])"
proof -
  let ?cells = "emptyCells b"
  let ?k = "pick (length ?cells)"
  from assms(3) have pos: "0 < length ?cells" by simp
  with length_emptyCells [of b] have "length ?cells \<in> {1..GRID_SIZE * GRID_SIZE}"
    by (simp add: Suc_le_eq)
  with assms(2) have k: "?k < length ?cells" by (simp add: validPick_def)
  obtain x y where xy: "?cells ! ?k = (x, y)" by (cases "?cells ! ?k")
  from k have "?cells ! ?k \<in> set ?cells" by simp
  with xy have "x < GRID_SIZE \<and> y < GRID_SIZE \<and> cellAt (b ! x) y = Some 0"
    by (simp add: set_emptyCells)
  then have xy4: "x < GRID_SIZE" "y < GRID_SIZE" and z: "cellAt (b ! x) y = Some 0"
    by simp_all
  from z cellAt_4x4 [OF assms(1) xy4] have "b ! x ! y = 0" by simp
  with xy4 have c: "x < GRID_SIZE" "y < GRID_SIZE" "b ! x ! y = 0" by simp_all
  have "addRandomTile b pick small = Inr (b[x := (b ! x)[y := (if small then 2 else 4)]])"
    using assms(1) pos k xy by (simp add: addRandomTile_def is4x4_def Let_def)
  with c show ?thesis by blast
qed

lemma wellFormed_update:
  assumes "wellFormed b" and "x < GRID_SIZE" and "tileValue v"
  shows "wellFormed (b[x := (b ! x)[y := v]])"
proof -
  from assms(1) have b: "is4x4 b" "\<And>row u. row \<in> set b \<Longrightarrow> u \<in> set row \<Longrightarrow> tileValue u"
    by (simp_all add: wellFormed_def)
  have bx: "b ! x \<in> set b" using b(1) assms(2) by (simp add: is4x4_def)
  have "tileValue u" if "row \<in> set (b[x := (b ! x)[y := v]])" "u \<in> set row" for row u
  proof -
    from that(1) have "row = (b ! x)[y := v] \<or> row \<in> set b"
      using set_update_subset_insert [of b x "(b ! x)[y := v]"] by auto
    then show ?thesis
    proof
      assume "row = (b ! x)[y := v]"
      with that(2) have "u = v \<or> u \<in> set (b ! x)"
        using set_update_subset_insert [of "b ! x" y v] by auto
      then show ?thesis using assms(3) b(2) [OF bx] by auto
    next
      assume "row \<in> set b"
      then show ?thesis using that(2) by (rule b(2))
    qed
  qed
  then show ?thesis
    using is4x4_update [OF b(1) assms(2), of y v] by (auto simp: wellFormed_def)
qed

lemma addRandomTile_wellFormed:
  assumes "wellFormed b" and "validPick pick"
  shows "\<exists>r. addRandomTile b pick small = Inr r \<and> wellFormed r"
proof (cases "emptyCells b = []")
  case True
  then have "addRandomTile b pick small = Inr b"
    using assms(1) by (simp add: addRandomTile_def wellFormed_def is4x4_def)
  with assms(1) show ?thesis by simp
next
  case False
  from assms(1) have b: "is4x4 b" by (simp add: wellFormed_def)
  from addRandomTile_spawn [OF b assms(2) False, of small] obtain x y where
    s: "x < GRID_SIZE" "addRandomTile b pick small =
          Inr (b[x := (b ! x)[y := (if small then 2 else 4)]])" by blast
  have "tileValue (if small then 2 else 4)" by (simp add: tileValue_2_4)
  from wellFormed_update [OF assms(1) s(1) this, of y] s(2) show ?thesis by simp
qed

lemma move_wellFormed:
  assumes "wellFormed (board g)" and "validPick pick"
  shows "\<exists>g'. move g d pick small = Inr g' \<and> wellFormed (board g') \<and> score g \<le> score g'"
proof (cases "gameOver g")
  case True
  then show ?thesis using assms(1) by (simp add: move_def)
next
  case False
  from moveBoard_wellFormed [OF assms(1), of d] obtain t delta where
    m: "moveBoard (board g) d = Inr (t, delta)" "wellFormed t" "0 \<le> delta" by blast
  show ?thesis
  proof (cases "board g = t")
    case True
    then show ?thesis using False m(1) assms(1) by (simp add: move_def)
  next
    case changed: False
    from addRandomTile_wellFormed [OF m(2) assms(2), of small] obtain r where
      r: "addRandomTile t pick small = Inr r" "wellFormed r" by blast
    from r(2) have "is4x4 r" by (simp add: wellFormed_def)
    then have o: "isGameOver r = Inr (isTerminal r)" by (rule isGameOver_isTerminal)
    have "move g d pick small =
            Inr (g\<lparr>board := r, score := score g + delta,
                   gameOver := (if isTerminal r then True else gameOver g)\<rparr>)"
      using False changed m(1) r(1) o by (simp add: move_def)
    then show ?thesis using r(2) m(3) by simp
  qed
qed

lemma createEmptyBoard_wellFormed: "wellFormed createEmptyBoard"
  by (simp add: createEmptyBoard_def wellFormed_def is4x4_def tileValue_2_4)

lemma initGame_wellFormed:
  assumes "validPick pick1" and "validPick pick2"
  shows "\<exists>g'. initGame g pick1 small1 pick2 small2 = Inr g' \<and> wellFormed (board g') \<and>
           score g' = 0 \<and> \<not> gameOver g'"
proof -
  from addRandomTile_wellFormed [OF createEmptyBoard_wellFormed assms(1), of small1]
  obtain first where f: "addRandomTile createEmptyBoard pick1 small1 = Inr first"
    "wellFormed first" by blast
  from addRandomTile_wellFormed [OF f(2) assms(2), of small2]
  obtain r where r: "addRandomTile first pick2 small2 = Inr r" "wellFormed r" by blast
  show ?thesis using f(1) r by (simp add: initGame_def)
qed

text \<open>
  C8: well-formedness (four rows of four cells, every cell 0 or a power of two that is
  at least 2) holds of the grid that \<^verbatim>\<open>initGame\<close> makes and is kept by the row slide,
  by \<^verbatim>\<open>rotateBoard\<close>, by \<^verbatim>\<open>addRandomTile\<close> and by \<^verbatim>\<open>move\<close>, none of which fails on a
  well-formed grid.
\<close>

theorem wellFormed_preserved:
  "(validPick pick1 \<and> validPick pick2 \<longrightarrow>
      (\<exists>g'. initGame g0 pick1 small1 pick2 small2 = Inr g' \<and> wellFormed (board g'))) \<and>
   (length row = GRID_SIZE \<and> (\<forall>v \<in> set row. tileValue v) \<longrightarrow>
      length (fst (slideRowLeft row)) = GRID_SIZE \<and>
      (\<forall>v \<in> set (fst (slideRowLeft row)). tileValue v)) \<and>
   (wellFormed b \<longrightarrow> (\<exists>r. rotateBoard b = Inr r \<and> wellFormed r)) \<and>
   (wellFormed b \<and> validPick pick \<longrightarrow>
      (\<exists>r. addRandomTile b pick small = Inr r \<and> wellFormed r)) \<and>
   (wellFormed (board g) \<and> validPick pick \<longrightarrow>
      (\<exists>g'. move g d pick small = Inr g' \<and> wellFormed (board g')))"
proof -
  have "\<exists>g'. initGame g0 pick1 small1 pick2 small2 = Inr g' \<and> wellFormed (board g')"
    if "validPick pick1" "validPick pick2"
    using initGame_wellFormed [OF that, of g0 small1 small2] by blast
  moreover have "length (fst (slideRowLeft row)) = GRID_SIZE \<and>
      (\<forall>v \<in> set (fst (slideRowLeft row)). tileValue v)"
    if "length row = GRID_SIZE" "\<forall>v \<in> set row. tileValue v"
  proof -
    have "tileValue v" if "v \<in> set (fst (slideRowLeft row))" for v
      using that by (rule slideRowLeft_tiles [rotated]) (simp add: \<open>\<forall>v \<in> set row. tileValue v\<close>)
    then show ?thesis using length_slideRowLeft [of row] that(1) by simp
  qed
  moreover have "\<exists>r. rotateBoard b = Inr r \<and> wellFormed r" if "wellFormed b"
    using that by (rule rotateBoard_wellFormed)
  moreover have "\<exists>r. addRandomTile b pick small = Inr r \<and> wellFormed r"
    if "wellFormed b" "validPick pick"
    using that by (rule addRandomTile_wellFormed)
  moreover have "\<exists>g'. move g d pick small = Inr g' \<and> wellFormed (board g')"
    if "wellFormed (board g)" "validPick pick"
    using move_wellFormed [OF that, of d small] by blast
  ultimately show ?thesis by blast
qed

theorem wellFormed_preserved_witness:
  "validPick (\<lambda>n. 0) \<and> validPick (\<lambda>n. n - 1) \<and>
   (\<exists>g'. initGame \<lparr>board = [], score = 7, gameOver = True\<rparr> (\<lambda>n. 0) True (\<lambda>n. n - 1) False
            = Inr g' \<and> wellFormed (board g')) \<and>
   length [2, 2, 0, 4 :: int] = GRID_SIZE \<and> list_all tileValue [2, 2, 0, 4] \<and>
   fst (slideRowLeft [2, 2, 0, 4]) = [4, 4, 0, 0] \<and>
   list_all tileValue (fst (slideRowLeft [2, 2, 0, 4])) \<and>
   wellFormed [[2, 2, 0, 4], [0, 0, 0, 0], [8, 0, 0, 8], [0, 16, 0, 0]] \<and>
   (\<exists>r. rotateBoard [[2, 2, 0, 4], [0, 0, 0, 0], [8, 0, 0, 8], [0, 16, 0, 0]] = Inr r \<and>
        wellFormed r) \<and>
   (\<exists>r. addRandomTile [[2, 2, 0, 4], [0, 0, 0, 0], [8, 0, 0, 8], [0, 16, 0, 0]] (\<lambda>n. 0) True
          = Inr r \<and> wellFormed r) \<and>
   (\<exists>g'. move \<lparr>board = [[2, 2, 0, 4], [0, 0, 0, 0], [8, 0, 0, 8], [0, 16, 0, 0]],
                score = 0, gameOver = False\<rparr> Left (\<lambda>n. 0) True = Inr g' \<and>
         wellFormed (board g'))"
proof -
  note t = wellFormed_preserved [of "\<lambda>n. 0" "\<lambda>n. n - 1"
        "\<lparr>board = [], score = 7, gameOver = True\<rparr>" True False "[2, 2, 0, 4]"
        "[[2, 2, 0, 4], [0, 0, 0, 0], [8, 0, 0, 8], [0, 16, 0, 0]]" "\<lambda>n. 0" True
        "\<lparr>board = [[2, 2, 0, 4], [0, 0, 0, 0], [8, 0, 0, 8], [0, 16, 0, 0]],
          score = 0, gameOver = False\<rparr>" Left]
  have p: "validPick (\<lambda>n. 0)" "validPick (\<lambda>n. n - 1)"
    by (simp_all add: validPick_def)
  have row: "length [2, 2, 0, 4 :: int] = GRID_SIZE" "\<forall>v \<in> set [2, 2, 0, 4]. tileValue v"
    by (simp_all add: tileValue_2_4)
  have v: "fst (slideRowLeft [2, 2, 0, 4]) = [4, 4, 0, 0]"
    by code_simp
  have b: "wellFormed [[2, 2, 0, 4], [0, 0, 0, 0], [8, 0, 0, 8], [0, 16, 0, 0]]"
    by code_simp
  then have bg: "wellFormed (board \<lparr>board = [[2, 2, 0, 4], [0, 0, 0, 0], [8, 0, 0, 8],
      [0, 16, 0, 0]], score = 0, gameOver = False\<rparr>)"
    by simp
  have c1: "\<exists>g'. initGame \<lparr>board = [], score = 7, gameOver = True\<rparr> (\<lambda>n. 0) True
      (\<lambda>n. n - 1) False = Inr g' \<and> wellFormed (board g')"
    using t p by blast
  have c2: "list_all tileValue (fst (slideRowLeft [2, 2, 0, 4]))"
    using t row unfolding list_all_iff by blast
  have c3: "\<exists>r. rotateBoard [[2, 2, 0, 4], [0, 0, 0, 0], [8, 0, 0, 8], [0, 16, 0, 0]] = Inr r \<and>
      wellFormed r"
    using t b by blast
  have c4: "\<exists>r. addRandomTile [[2, 2, 0, 4], [0, 0, 0, 0], [8, 0, 0, 8], [0, 16, 0, 0]]
      (\<lambda>n. 0) True = Inr r \<and> wellFormed r"
    using t b p by blast
  have c5: "\<exists>g'. move \<lparr>board = [[2, 2, 0, 4], [0, 0, 0, 0], [8, 0, 0, 8], [0, 16, 0, 0]],
      score = 0, gameOver = False\<rparr> Left (\<lambda>n. 0) True = Inr g' \<and> wellFormed (board g')"
    using t bg p by blast
  have r: "list_all tileValue [2, 2, 0, 4]"
    using row(2) unfolding list_all_iff .
  from p c1 row(1) r v c2 b c3 c4 c5 show ?thesis
    by (intro conjI)
qed

subsection \<open>The score of a session\<close>

lemma move_step:
  assumes "wellFormed (board g)" and "validPick pick"
  shows "\<exists>g'. move g d pick small = Inr g' \<and> wellFormed (board g') \<and>
           score g' = score g + (if stateChanging g d then scoreDelta (board g) d else 0) \<and>
           score g \<le> score g'"
proof (cases "gameOver g")
  case True
  then show ?thesis using assms(1) by (simp add: move_def stateChanging_def)
next
  case False
  from moveBoard_wellFormed [OF assms(1), of d] obtain t delta where
    m: "moveBoard (board g) d = Inr (t, delta)" "wellFormed t" "0 \<le> delta" by blast
  show ?thesis
  proof (cases "board g = t")
    case True
    then show ?thesis using False m(1) assms(1) by (simp add: move_def stateChanging_def)
  next
    case changed: False
    from addRandomTile_wellFormed [OF m(2) assms(2), of small] obtain r where
      r: "addRandomTile t pick small = Inr r" "wellFormed r" by blast
    from r(2) have "is4x4 r" by (simp add: wellFormed_def)
    then have o: "isGameOver r = Inr (isTerminal r)" by (rule isGameOver_isTerminal)
    have "move g d pick small =
            Inr (g\<lparr>board := r, score := score g + delta,
                   gameOver := (if isTerminal r then True else gameOver g)\<rparr>)"
      using False changed m(1) r(1) o by (simp add: move_def)
    moreover have "stateChanging g d" "scoreDelta (board g) d = delta"
      using False changed m(1) by (simp_all add: stateChanging_def scoreDelta_def)
    ultimately show ?thesis using r(2) m(3) by simp
  qed
qed

lemma run_session:
  assumes "wellFormed (board g)" and "\<forall>m \<in> set ms. validPick (fst (snd m))"
  shows "\<exists>g'. run g ms = Inr g' \<and> wellFormed (board g') \<and> score g \<le> score g' \<and>
           score g' = score g + deltaSum g ms"
  using assms
proof (induction ms arbitrary: g)
  case Nil
  then show ?case by simp
next
  case (Cons m ms)
  obtain d pick small where m: "m = (d, pick, small)" by (cases m)
  from Cons.prems(2) m have p: "validPick pick" by simp
  from move_step [OF Cons.prems(1) p, of d small] obtain g1 where
    g1: "move g d pick small = Inr g1" "wellFormed (board g1)"
        "score g1 = score g + (if stateChanging g d then scoreDelta (board g) d else 0)"
        "score g \<le> score g1" by blast
  from Cons.prems(2) have "\<forall>m \<in> set ms. validPick (fst (snd m))" by simp
  from Cons.IH [OF g1(2) this] obtain g2 where
    g2: "run g1 ms = Inr g2" "wellFormed (board g2)" "score g1 \<le> score g2"
        "score g2 = score g1 + deltaSum g1 ms" by blast
  have "run g (m # ms) = Inr g2" using m g1(1) g2(1) by simp
  moreover have "deltaSum g (m # ms) =
      (if stateChanging g d then scoreDelta (board g) d else 0) + deltaSum g1 ms"
    using m g1(1) by simp
  ultimately show ?case using g1(3,4) g2(2,3,4) by simp
qed

lemma run_append:
  "run g (xs @ ys) = (case run g xs of Inl e \<Rightarrow> Inl e | Inr g' \<Rightarrow> run g' ys)"
proof (induction xs arbitrary: g)
  case Nil
  then show ?case by simp
next
  case (Cons m xs)
  obtain d pick small where m: "m = (d, pick, small)" by (cases m)
  show ?case unfolding m using Cons.IH by (simp split: sum.splits)
qed

text \<open>
  C7: in a session that starts from a well-formed grid every move call returns, the
  score never decreases from one state of the session to a later one, and after the
  whole sequence it is the starting score plus the sum of the score deltas of the
  state-changing moves; a move that changes nothing adds nothing.
\<close>

theorem score_monotone_and_sum:
  assumes "wellFormed (board g)" and "\<forall>m \<in> set ms. validPick (fst (snd m))"
    and "n \<le> length ms"
  shows "\<exists>g1 g2. run g (take n ms) = Inr g1 \<and> run g ms = Inr g2 \<and>
           score g \<le> score g1 \<and> score g1 \<le> score g2 \<and>
           score g2 = score g + deltaSum g ms"
proof -
  have "\<forall>m \<in> set (take n ms). validPick (fst (snd m))"
    using assms(2) by (meson in_set_takeD)
  from run_session [OF assms(1) this] obtain g1 where
    g1: "run g (take n ms) = Inr g1" "wellFormed (board g1)" "score g \<le> score g1" by blast
  have "\<forall>m \<in> set (drop n ms). validPick (fst (snd m))"
    using assms(2) by (meson in_set_dropD)
  from run_session [OF g1(2) this] obtain g2 where
    g2: "run g1 (drop n ms) = Inr g2" "score g1 \<le> score g2" by blast
  have "run g (take n ms @ drop n ms) = Inr g2"
    unfolding run_append using g1(1) g2(1) by simp
  then have r: "run g ms = Inr g2" by simp
  from run_session [OF assms(1,2)] r have "score g2 = score g + deltaSum g ms" by simp
  with g1(1,3) g2(2) r show ?thesis by blast
qed


theorem score_monotone_and_sum_witness:
  "wellFormed (board \<lparr>board = [[2, 2, 0, 0], [0, 0, 0, 0], [0, 0, 0, 0], [0, 0, 0, 0]], score = 0,
       gameOver = False\<rparr>) \<and>
   list_all (\<lambda>m. validPick (fst (snd m))) [(Left, \<lambda>n. 0, True), (Left, \<lambda>n. 0, True), (Right, \<lambda>n. 0, False),
       (Left, \<lambda>n. n - 1, True), (Left, \<lambda>n. 0, True)] \<and>
   2 \<le> length [(Left, \<lambda>n. 0, True), (Left, \<lambda>n. 0, True), (Right, \<lambda>n. 0, False),
       (Left, \<lambda>n. n - 1, True), (Left, \<lambda>n. 0, True)] \<and>
   (\<exists>g1 g2. run \<lparr>board = [[2, 2, 0, 0], [0, 0, 0, 0], [0, 0, 0, 0], [0, 0, 0, 0]], score = 0,
       gameOver = False\<rparr> (take 2 [(Left, \<lambda>n. 0, True), (Left, \<lambda>n. 0, True), (Right, \<lambda>n. 0, False),
       (Left, \<lambda>n. n - 1, True), (Left, \<lambda>n. 0, True)]) = Inr g1 \<and> run \<lparr>board = [[2, 2, 0, 0], [0, 0, 0, 0], [0, 0, 0, 0], [0, 0, 0, 0]], score = 0,
       gameOver = False\<rparr> [(Left, \<lambda>n. 0, True), (Left, \<lambda>n. 0, True), (Right, \<lambda>n. 0, False),
       (Left, \<lambda>n. n - 1, True), (Left, \<lambda>n. 0, True)] = Inr g2 \<and>
      score \<lparr>board = [[2, 2, 0, 0], [0, 0, 0, 0], [0, 0, 0, 0], [0, 0, 0, 0]], score = 0,
       gameOver = False\<rparr> \<le> score g1 \<and> score g1 \<le> score g2 \<and>
      score g2 = score \<lparr>board = [[2, 2, 0, 0], [0, 0, 0, 0], [0, 0, 0, 0], [0, 0, 0, 0]], score = 0,
       gameOver = False\<rparr> + deltaSum \<lparr>board = [[2, 2, 0, 0], [0, 0, 0, 0], [0, 0, 0, 0], [0, 0, 0, 0]], score = 0,
       gameOver = False\<rparr> [(Left, \<lambda>n. 0, True), (Left, \<lambda>n. 0, True), (Right, \<lambda>n. 0, False),
       (Left, \<lambda>n. n - 1, True), (Left, \<lambda>n. 0, True)]) \<and>
   run \<lparr>board = [[2, 2, 0, 0], [0, 0, 0, 0], [0, 0, 0, 0], [0, 0, 0, 0]], score = 0,
       gameOver = False\<rparr> (take 2 [(Left, \<lambda>n. 0, True), (Left, \<lambda>n. 0, True), (Right, \<lambda>n. 0, False),
       (Left, \<lambda>n. n - 1, True), (Left, \<lambda>n. 0, True)]) = Inr \<lparr>board = [[4, 2, 0, 0], [0, 0, 0, 0], [0, 0, 0, 0], [0, 0, 0, 0]], score = 4,
       gameOver = False\<rparr> \<and>
   run \<lparr>board = [[2, 2, 0, 0], [0, 0, 0, 0], [0, 0, 0, 0], [0, 0, 0, 0]], score = 0,
       gameOver = False\<rparr> [(Left, \<lambda>n. 0, True), (Left, \<lambda>n. 0, True), (Right, \<lambda>n. 0, False),
       (Left, \<lambda>n. n - 1, True), (Left, \<lambda>n. 0, True)] = Inr \<lparr>board = [[8, 2, 2, 0], [0, 0, 0, 0], [0, 0, 0, 0], [2, 0, 0, 0]], score = 12,
       gameOver = False\<rparr> \<and>
   deltaSum \<lparr>board = [[2, 2, 0, 0], [0, 0, 0, 0], [0, 0, 0, 0], [0, 0, 0, 0]], score = 0,
       gameOver = False\<rparr> [(Left, \<lambda>n. 0, True), (Left, \<lambda>n. 0, True), (Right, \<lambda>n. 0, False),
       (Left, \<lambda>n. n - 1, True), (Left, \<lambda>n. 0, True)] = 12"
proof -
  have h1: "wellFormed (board \<lparr>board = [[2, 2, 0, 0], [0, 0, 0, 0], [0, 0, 0, 0], [0, 0, 0, 0]], score = 0,
       gameOver = False\<rparr>)"
    by code_simp
  have h2: "\<forall>m \<in> set [(Left, \<lambda>n. 0, True), (Left, \<lambda>n. 0, True), (Right, \<lambda>n. 0, False),
       (Left, \<lambda>n. n - 1, True), (Left, \<lambda>n. 0, True)]. validPick (fst (snd m))"
    by (simp add: validPick_def)
  have h3: "2 \<le> length [(Left, \<lambda>n. 0, True), (Left, \<lambda>n. 0, True), (Right, \<lambda>n. 0, False),
       (Left, \<lambda>n. n - 1, True), (Left, \<lambda>n. 0, True)]"
    by simp
  note c = score_monotone_and_sum [OF h1 h2 h3]
  have l: "list_all (\<lambda>m. validPick (fst (snd m))) [(Left, \<lambda>n. 0, True), (Left, \<lambda>n. 0, True), (Right, \<lambda>n. 0, False),
       (Left, \<lambda>n. n - 1, True), (Left, \<lambda>n. 0, True)]"
    using h2 unfolding list_all_iff .
  have r1: "run \<lparr>board = [[2, 2, 0, 0], [0, 0, 0, 0], [0, 0, 0, 0], [0, 0, 0, 0]], score = 0,
       gameOver = False\<rparr> (take 2 [(Left, \<lambda>n. 0, True), (Left, \<lambda>n. 0, True), (Right, \<lambda>n. 0, False),
       (Left, \<lambda>n. n - 1, True), (Left, \<lambda>n. 0, True)]) = Inr \<lparr>board = [[4, 2, 0, 0], [0, 0, 0, 0], [0, 0, 0, 0], [0, 0, 0, 0]], score = 4,
       gameOver = False\<rparr>"
    by code_simp
  have r2: "run \<lparr>board = [[2, 2, 0, 0], [0, 0, 0, 0], [0, 0, 0, 0], [0, 0, 0, 0]], score = 0,
       gameOver = False\<rparr> [(Left, \<lambda>n. 0, True), (Left, \<lambda>n. 0, True), (Right, \<lambda>n. 0, False),
       (Left, \<lambda>n. n - 1, True), (Left, \<lambda>n. 0, True)] = Inr \<lparr>board = [[8, 2, 2, 0], [0, 0, 0, 0], [0, 0, 0, 0], [2, 0, 0, 0]], score = 12,
       gameOver = False\<rparr>"
    by code_simp
  have d: "deltaSum \<lparr>board = [[2, 2, 0, 0], [0, 0, 0, 0], [0, 0, 0, 0], [0, 0, 0, 0]], score = 0,
       gameOver = False\<rparr> [(Left, \<lambda>n. 0, True), (Left, \<lambda>n. 0, True), (Right, \<lambda>n. 0, False),
       (Left, \<lambda>n. n - 1, True), (Left, \<lambda>n. 0, True)] = 12"
    by code_simp
  from h1 l h3 c r1 r2 d show ?thesis
    by (intro conjI)
qed

subsection \<open>Counting tiles through a move\<close>

lemma mergeCount_mergePairs:
  "length (fst (mergePairs (drop i xs))) + mergeCount xs i = length xs - i"
proof (induction xs i rule: mergeCount.induct)
  case (1 xs i)
  show ?case
  proof (cases "i < length xs")
    case False
    then show ?thesis by (subst mergeCount.simps) simp
  next
    case inside: True
    show ?thesis
    proof (cases "i + 1 < length xs \<and> xs ! i = xs ! (i + 1)")
      case True
      have "mergeCount xs i = Suc (mergeCount xs (i + 1 + 1))"
        using inside True by (subst mergeCount.simps) simp
      moreover have "length (fst (mergePairs (drop i xs))) =
          Suc (length (fst (mergePairs (drop (i + 1 + 1) xs))))"
        using True by (simp add: mergePairs_drop [OF inside])
      moreover have "i + 1 < length xs" using True by simp
      ultimately show ?thesis using "1.IH"(1) [OF inside True] by simp
    next
      case False
      have "mergeCount xs i = mergeCount xs (i + 1)"
        using inside False by (subst mergeCount.simps) auto
      moreover have "length (fst (mergePairs (drop i xs))) =
          Suc (length (fst (mergePairs (drop (i + 1) xs))))"
        using False by (auto simp add: mergePairs_drop [OF inside])
      ultimately show ?thesis using "1.IH"(2) [OF inside False] inside by simp
    qed
  qed
qed

lemma mergePairs_nonzero:
  "0 \<notin> set xs \<Longrightarrow> 0 \<notin> set (fst (mergePairs xs))"
  by (induction xs rule: mergePairs.induct) simp_all

lemma filter_nonzero_id: "0 \<notin> set xs \<Longrightarrow> filter (\<lambda>v. v \<noteq> (0::int)) xs = xs"
  by (induction xs) auto

lemma slideRowLeft_count:
  "length (filter (\<lambda>v. v \<noteq> 0) (fst (slideRowLeft row))) +
     mergeCount (filter (\<lambda>val. val \<noteq> 0) row) 0 =
   length (filter (\<lambda>v. v \<noteq> 0) row)"
proof -
  let ?f = "filter (\<lambda>v. v \<noteq> 0) row"
  let ?m = "fst (mergePairs ?f)"
  have "0 \<notin> set ?f" by simp
  then have "0 \<notin> set ?m" by (rule mergePairs_nonzero)
  then have "filter (\<lambda>v. v \<noteq> 0) ?m = ?m" by (rule filter_nonzero_id)
  then have "length (filter (\<lambda>v. v \<noteq> 0) (fst (slideRowLeft row))) = length ?m"
    by (simp add: slideRowLeft_spec slideAndMergeLine_def Let_def)
  moreover have "length ?m + mergeCount ?f 0 = length ?f"
    using mergeCount_mergePairs [of 0 ?f] by simp
  ultimately show ?thesis by simp
qed

lemma slid_count:
  "nonZeroCount (map (\<lambda>row. fst (slideRowLeft row)) t) +
     sum_list (map (\<lambda>row. mergeCount (filter (\<lambda>val. val \<noteq> 0) row) 0) t) =
   nonZeroCount t"
proof (induction t)
  case Nil
  then show ?case by (simp add: nonZeroCount_def)
next
  case (Cons row t)
  from Cons slideRowLeft_count [of row] show ?case
    by (simp add: nonZeroCount_def)
qed

lemma rotateTimes_count:
  "is4x4 b \<Longrightarrow> rotateTimes n b = Inr r \<Longrightarrow> nonZeroCount r = nonZeroCount b"
  using rotateTimes_mset [of b n] by (auto simp: nonZeroCount_mset)

lemma filter_update_count:
  assumes "i < length xs"
  shows "length (filter P (xs[i := v])) + (if P (xs ! i) then 1 else 0) =
         length (filter P xs) + (if P v then 1 else 0)"
proof -
  have "length (filter P xs) =
      length (filter P (take i xs)) + (if P (xs ! i) then 1 else 0) +
      length (filter P (drop (Suc i) xs))"
    by (subst id_take_nth_drop [OF assms]) simp
  moreover have "length (filter P (xs[i := v])) =
      length (filter P (take i xs)) + (if P v then 1 else 0) +
      length (filter P (drop (Suc i) xs))"
    by (subst upd_conv_take_nth_drop [OF assms]) simp
  ultimately show ?thesis by simp
qed

lemma nonZeroCount_update_row:
  assumes "x < length b"
  shows "nonZeroCount (b[x := r]) + length (filter (\<lambda>v. v \<noteq> 0) (b ! x)) =
         nonZeroCount b + length (filter (\<lambda>v. v \<noteq> 0) r)"
proof -
  have "nonZeroCount b =
      nonZeroCount (take x b) + length (filter (\<lambda>v. v \<noteq> 0) (b ! x)) +
      nonZeroCount (drop (Suc x) b)"
    unfolding nonZeroCount_def by (subst id_take_nth_drop [OF assms]) simp
  moreover have "nonZeroCount (b[x := r]) =
      nonZeroCount (take x b) + length (filter (\<lambda>v. v \<noteq> 0) r) +
      nonZeroCount (drop (Suc x) b)"
    unfolding nonZeroCount_def by (subst upd_conv_take_nth_drop [OF assms]) simp
  ultimately show ?thesis by simp
qed

lemma nonZeroCount_spawn:
  assumes "is4x4 b" and "x < GRID_SIZE" and "y < GRID_SIZE" and "b ! x ! y = 0" and "v \<noteq> 0"
  shows "nonZeroCount (b[x := (b ! x)[y := v]]) = nonZeroCount b + 1"
proof -
  from assms(1,2) have x: "x < length b" and y: "y < length (b ! x)"
    using assms(3) by (simp_all add: is4x4_def)
  from filter_update_count [OF y, of "\<lambda>v. v \<noteq> 0" v] assms(4,5)
  have "length (filter (\<lambda>v. v \<noteq> 0) ((b ! x)[y := v])) =
        length (filter (\<lambda>v. v \<noteq> 0) (b ! x)) + 1" by simp
  with nonZeroCount_update_row [OF x, of "(b ! x)[y := v]"] show ?thesis by simp
qed

lemma filter_full_id: "length (filter P xs) = length xs \<Longrightarrow> filter P xs = xs"
proof (induction xs)
  case Nil
  then show ?case by simp
next
  case (Cons x xs)
  have le: "length (filter P xs) \<le> length xs" by simp
  show ?case
  proof (cases "P x")
    case True
    with Cons show ?thesis by simp
  next
    case False
    with Cons.prems le show ?thesis by simp
  qed
qed

lemma mergePairs_full_id:
  "length (fst (mergePairs xs)) = length xs \<Longrightarrow> fst (mergePairs xs) = xs"
proof (induction xs rule: mergePairs.induct)
  case (1 x y xs)
  show ?case
  proof (cases "x = y")
    case True
    have "length (fst (mergePairs xs)) \<le> length xs" by (rule length_mergePairs)
    with "1.prems" True show ?thesis by simp
  next
    case False
    with "1.prems" have "length (fst (mergePairs (y # xs))) = length (y # xs)" by simp
    from "1.IH"(3) [OF False this] False show ?thesis by simp
  qed
qed simp_all

lemma slideRowLeft_full_id:
  assumes "length row = GRID_SIZE" and "0 \<notin> set (fst (slideRowLeft row))"
  shows "fst (slideRowLeft row) = row"
proof -
  let ?f = "filter (\<lambda>v. v \<noteq> 0) row"
  let ?m = "fst (mergePairs ?f)"
  have s: "fst (slideRowLeft row) = ?m @ replicate (GRID_SIZE - length ?m) 0"
    by (simp add: slideRowLeft_spec slideAndMergeLine_def Let_def)
  have "GRID_SIZE - length ?m = 0"
  proof (rule ccontr)
    assume "GRID_SIZE - length ?m \<noteq> 0"
    then have "0 \<in> set (replicate (GRID_SIZE - length ?m) (0::int))" by simp
    with s assms(2) show False by simp
  qed
  then have m4: "GRID_SIZE \<le> length ?m" by simp
  have mf: "length ?m \<le> length ?f" by (rule length_mergePairs)
  have fr: "length ?f \<le> length row" by simp
  from m4 mf fr assms(1) have "length ?f = length row" "length ?m = length ?f" by simp_all
  then have "?f = row" "?m = ?f" by (simp_all add: filter_full_id mergePairs_full_id)
  with s \<open>GRID_SIZE - length ?m = 0\<close> show ?thesis by simp
qed

lemma rotateTimes_round:
  assumes "is4x4 b" and "k \<le> 3" and "rotateTimes k b = Inr turned"
  shows "rotateTimes ((4 - k) mod 4) turned = Inr b"
proof -
  from assms(1) obtain a0 a1 a2 a3 b0 b1 b2 b3 c0 c1 c2 c3 d0 d1 d2 d3 where
    b: "b = [[a0, a1, a2, a3], [b0, b1, b2, b3], [c0, c1, c2, c3], [d0, d1, d2, d3]]"
    unfolding is4x4_explicit by blast
  from assms(2) consider "k = 0" | "k = 1" | "k = 2" | "k = 3" by linarith
  then show ?thesis
  proof cases
    case 1
    with assms(3) show ?thesis by simp
  next
    case 2
    from assms(3) have "turned = [[d0, c0, b0, a0], [d1, c1, b1, a1], [d2, c2, b2, a2], [d3, c3, b3, a3]]"
      unfolding 2 b by (simp add: rotateBoard_explicit)
    then show ?thesis unfolding 2 b by (simp add: rotateTimes_3_explicit)
  next
    case 3
    from assms(3) have "turned = [[d3, d2, d1, d0], [c3, c2, c1, c0], [b3, b2, b1, b0], [a3, a2, a1, a0]]"
      unfolding 3 b by (simp add: numeral_2_eq_2 rotateBoard_explicit)
    then show ?thesis unfolding 3 b by (simp add: numeral_2_eq_2 rotateBoard_explicit)
  next
    case 4
    from assms(3) have "turned = [[a3, b3, c3, d3], [a2, b2, c2, d2], [a1, b1, c1, d1], [a0, b0, c0, d0]]"
      unfolding 4 b by (simp add: rotateTimes_3_explicit)
    then show ?thesis unfolding 4 b by (simp add: rotateBoard_explicit)
  qed
qed

lemma no_emptyCells_no_zero:
  assumes "is4x4 t" and "emptyCells t = []"
  shows "0 \<notin> set (concat t)"
proof
  assume "0 \<in> set (concat t)"
  then obtain row where row: "row \<in> set t" "0 \<in> set row" by auto
  from row(1) obtain x where x: "x < length t" "t ! x = row" by (auto simp: in_set_conv_nth)
  from row(2) obtain y where y: "y < length row" "row ! y = 0" by (auto simp: in_set_conv_nth)
  from assms(1) x y(1) row(1) have xy: "x < GRID_SIZE" "y < GRID_SIZE"
    by (simp_all add: is4x4_def)
  from cellAt_4x4 [OF assms(1) xy] x(2) y(2) have "cellAt (t ! x) y = Some 0" by simp
  with xy have "(x, y) \<in> set (emptyCells t)" by (simp add: set_emptyCells)
  with assms(2) show False by simp
qed

lemma changed_has_empty:
  assumes "is4x4 b" and "moveBoard b d = Inr (t, delta)" and "t \<noteq> b"
  shows "emptyCells t \<noteq> []"
proof
  assume e: "emptyCells t = []"
  from moveBoard_turned [OF assms(1), of d] assms(2) obtain turned where
    h: "rotateTimes (rotations d) b = Inr turned" "is4x4 turned"
       "rotateTimes ((4 - rotations d) mod 4) (map (\<lambda>row. fst (slideRowLeft row)) turned)
          = Inr t" "is4x4 t"
    by auto
  let ?slid = "map (\<lambda>row. fst (slideRowLeft row)) turned"
  have s: "is4x4 ?slid" using h(2) by (rule is4x4_slid)
  from rotateTimes_mset [OF s, of "(4 - rotations d) mod 4"] h(3)
  have "mset (concat t) = mset (concat ?slid)" by simp
  then have eq: "set (concat t) = set (concat ?slid)" by (rule mset_eq_setD)
  have nz: "0 \<notin> set (concat t)" using h(4) e by (rule no_emptyCells_no_zero)
  have z: "0 \<notin> set (concat ?slid)" using nz unfolding eq .
  have "fst (slideRowLeft row) = row" if "row \<in> set turned" for row
  proof (rule slideRowLeft_full_id)
    show "length row = GRID_SIZE" using h(2) that by (simp add: is4x4_def)
    show "0 \<notin> set (fst (slideRowLeft row))" using z that by auto
  qed
  then have "?slid = turned" by (simp add: map_idI)
  with h(3) have "rotateTimes ((4 - rotations d) mod 4) turned = Inr t" by simp
  with rotateTimes_round [OF assms(1) rotations_le h(1)] have "t = b" by simp
  with assms(3) show False by simp
qed

lemma moveBoard_count:
  assumes "is4x4 b" and "moveBoard b d = Inr (t, delta)"
  shows "nonZeroCount t + mergedPairs b d = nonZeroCount b"
proof -
  from moveBoard_turned [OF assms(1), of d] assms(2) obtain turned where
    h: "rotateTimes (rotations d) b = Inr turned" "is4x4 turned"
       "rotateTimes ((4 - rotations d) mod 4) (map (\<lambda>row. fst (slideRowLeft row)) turned)
          = Inr t"
    by auto
  let ?slid = "map (\<lambda>row. fst (slideRowLeft row)) turned"
  have s: "is4x4 ?slid" using h(2) by (rule is4x4_slid)
  have "take GRID_SIZE turned = turned" using h(2) by (simp add: is4x4_def)
  then have "mergedPairs b d =
      sum_list (map (\<lambda>row. mergeCount (filter (\<lambda>val. val \<noteq> 0) row) 0) turned)"
    by (simp add: mergedPairs_def h(1))
  moreover have "nonZeroCount t = nonZeroCount ?slid"
    using s h(3) by (rule rotateTimes_count)
  moreover have "nonZeroCount turned = nonZeroCount b"
    using assms(1) h(1) by (rule rotateTimes_count)
  ultimately show ?thesis using slid_count [of turned] by simp
qed

text \<open>
  C3: when a move changes the grid, the slid grid has an empty cell, the move returns,
  and its board is the slid grid with exactly one cell changed: a cell that was empty
  in the slid grid now holds 2 or 4. The number of non-zero cells afterwards is the
  number before the move, minus the number of merged pairs, plus one.
\<close>

theorem move_spawns_one_tile:
  assumes "is4x4 (board g)" and "\<not> gameOver g" and "validPick pick"
    and "moveBoard (board g) d = Inr (t, delta)" and "t \<noteq> board g"
  shows "\<exists>x y v g'. move g d pick small = Inr g' \<and>
           x < GRID_SIZE \<and> y < GRID_SIZE \<and> t ! x ! y = 0 \<and> (v = 2 \<or> v = 4) \<and>
           board g' = t[x := (t ! x)[y := v]] \<and>
           int (nonZeroCount (board g')) =
             int (nonZeroCount (board g)) - int (mergedPairs (board g) d) + 1"
proof -
  from moveBoard_turned [OF assms(1), of d] assms(4) have t: "is4x4 t" by auto
  have e: "emptyCells t \<noteq> []" using assms(1,4,5) by (rule changed_has_empty)
  let ?v = "if small then 2 else 4 :: int"
  from addRandomTile_spawn [OF t assms(3) e, of small] obtain x y where
    s: "x < GRID_SIZE" "y < GRID_SIZE" "t ! x ! y = 0"
       "addRandomTile t pick small = Inr (t[x := (t ! x)[y := ?v]])" by blast
  let ?r = "t[x := (t ! x)[y := ?v]]"
  have "is4x4 ?r" using t s(1) by (rule is4x4_update)
  then have o: "isGameOver ?r = Inr (isTerminal ?r)" by (rule isGameOver_isTerminal)
  define g' where "g' = g\<lparr>board := ?r, score := score g + delta,
      gameOver := (if isTerminal ?r then True else gameOver g)\<rparr>"
  have m: "move g d pick small = Inr g'"
    using assms(2,4,5) s(4) o unfolding g'_def move_def by simp
  have b: "board g' = ?r" by (simp add: g'_def)
  have "nonZeroCount ?r = nonZeroCount t + 1"
    using t s(1,2,3) by (rule nonZeroCount_spawn) simp
  with moveBoard_count [OF assms(1,4)] b
  have "int (nonZeroCount (board g')) =
          int (nonZeroCount (board g)) - int (mergedPairs (board g) d) + 1" by simp
  moreover have "?v = 2 \<or> ?v = 4" by simp
  ultimately show ?thesis using m s(1,2,3) b by blast
qed


theorem move_spawns_one_tile_witness:
  "is4x4 (board \<lparr>board = [[2, 2, 0, 4], [0, 0, 0, 0], [8, 0, 0, 8], [0, 16, 0, 0]],
       score = 0, gameOver = False\<rparr>) \<and>
   \<not> gameOver \<lparr>board = [[2, 2, 0, 4], [0, 0, 0, 0], [8, 0, 0, 8], [0, 16, 0, 0]],
       score = 0, gameOver = False\<rparr> \<and>
   validPick (\<lambda>n. 0) \<and>
   moveBoard (board \<lparr>board = [[2, 2, 0, 4], [0, 0, 0, 0], [8, 0, 0, 8], [0, 16, 0, 0]],
       score = 0, gameOver = False\<rparr>) Left =
     Inr ([[4, 4, 0, 0], [0, 0, 0, 0], [16, 0, 0, 0], [16, 0, 0, 0]], 20) \<and>
   [[4, 4, 0, 0], [0, 0, 0, 0], [16, 0, 0, 0], [16, 0, 0, 0]] \<noteq> board \<lparr>board = [[2, 2, 0, 4], [0, 0, 0, 0], [8, 0, 0, 8], [0, 16, 0, 0]],
       score = 0, gameOver = False\<rparr> \<and>
   (\<exists>x y v g'. move \<lparr>board = [[2, 2, 0, 4], [0, 0, 0, 0], [8, 0, 0, 8], [0, 16, 0, 0]],
       score = 0, gameOver = False\<rparr> Left (\<lambda>n. 0) True = Inr g' \<and>
      x < GRID_SIZE \<and> y < GRID_SIZE \<and>
      [[4, 4, 0, 0], [0, 0, 0, 0], [16, 0, 0, 0], [16, 0, 0, 0]] ! x ! y = (0 :: int) \<and> (v = 2 \<or> v = 4) \<and>
      board g' = [[4, 4, 0, 0], [0, 0, 0, 0], [16, 0, 0, 0], [16, 0, 0, 0]]
        [x := ([[4, 4, 0, 0], [0, 0, 0, 0], [16, 0, 0, 0], [16, 0, 0, 0]] ! x)[y := v]] \<and>
      int (nonZeroCount (board g')) =
        int (nonZeroCount (board \<lparr>board = [[2, 2, 0, 4], [0, 0, 0, 0], [8, 0, 0, 8], [0, 16, 0, 0]],
       score = 0, gameOver = False\<rparr>)) -
        int (mergedPairs (board \<lparr>board = [[2, 2, 0, 4], [0, 0, 0, 0], [8, 0, 0, 8], [0, 16, 0, 0]],
       score = 0, gameOver = False\<rparr>) Left) + 1) \<and>
   move \<lparr>board = [[2, 2, 0, 4], [0, 0, 0, 0], [8, 0, 0, 8], [0, 16, 0, 0]],
       score = 0, gameOver = False\<rparr> Left (\<lambda>n. 0) True =
     Inr \<lparr>board = [[4, 4, 2, 0], [0, 0, 0, 0], [16, 0, 0, 0], [16, 0, 0, 0]],
       score = 20, gameOver = False\<rparr> \<and>
   nonZeroCount [[2, 2, 0, 4], [0, 0, 0, 0], [8, 0, 0, 8], [0, 16, 0, 0]] = 6 \<and>
   mergedPairs [[2, 2, 0, 4], [0, 0, 0, 0], [8, 0, 0, 8], [0, 16, 0, 0]] Left = 2 \<and>
   nonZeroCount [[4, 4, 2, 0], [0, 0, 0, 0], [16, 0, 0, 0], [16, 0, 0, 0]] = 5"
proof -
  have h1: "is4x4 (board \<lparr>board = [[2, 2, 0, 4], [0, 0, 0, 0], [8, 0, 0, 8], [0, 16, 0, 0]],
       score = 0, gameOver = False\<rparr>)"
    by (simp add: is4x4_def)
  have h2: "\<not> gameOver \<lparr>board = [[2, 2, 0, 4], [0, 0, 0, 0], [8, 0, 0, 8], [0, 16, 0, 0]],
       score = 0, gameOver = False\<rparr>"
    by simp
  have h3: "validPick (\<lambda>n. 0)"
    by (simp add: validPick_def)
  have h4: "moveBoard (board \<lparr>board = [[2, 2, 0, 4], [0, 0, 0, 0], [8, 0, 0, 8], [0, 16, 0, 0]],
       score = 0, gameOver = False\<rparr>) Left =
     Inr ([[4, 4, 0, 0], [0, 0, 0, 0], [16, 0, 0, 0], [16, 0, 0, 0]], 20)"
    by code_simp
  have h5: "[[4, 4, 0, 0], [0, 0, 0, 0], [16, 0, 0, 0], [16, 0, 0, 0]] \<noteq> board \<lparr>board = [[2, 2, 0, 4], [0, 0, 0, 0], [8, 0, 0, 8], [0, 16, 0, 0]],
       score = 0, gameOver = False\<rparr>"
    by simp
  note c = move_spawns_one_tile [OF h1 h2 h3 h4 h5, of True]
  have m: "move \<lparr>board = [[2, 2, 0, 4], [0, 0, 0, 0], [8, 0, 0, 8], [0, 16, 0, 0]],
       score = 0, gameOver = False\<rparr> Left (\<lambda>n. 0) True =
     Inr \<lparr>board = [[4, 4, 2, 0], [0, 0, 0, 0], [16, 0, 0, 0], [16, 0, 0, 0]],
       score = 20, gameOver = False\<rparr>"
    by code_simp
  have n1: "nonZeroCount [[2, 2, 0, 4], [0, 0, 0, 0], [8, 0, 0, 8], [0, 16, 0, 0]] = 6"
    by code_simp
  have k: "mergedPairs [[2, 2, 0, 4], [0, 0, 0, 0], [8, 0, 0, 8], [0, 16, 0, 0]] Left = 2"
    by code_simp
  have n2: "nonZeroCount [[4, 4, 2, 0], [0, 0, 0, 0], [16, 0, 0, 0], [16, 0, 0, 0]] = 5"
    by code_simp
  from h1 h2 h3 h4 h5 c m n1 k n2 show ?thesis
    by (intro conjI)
qed

end
